theory Spec2Isabelle
  imports Main "HOL-Library.Word"
begin

unbundle bit_operations_syntax

section \<open>The cache access gate (src/gpu/GrGpuResourceCacheAccess.h)\<close>

text \<open>
  \<^verbatim>\<open>GrGpuResource::CacheAccess\<close> holds one pointer, \<^verbatim>\<open>fResource\<close>, and every method
  of it dereferences that pointer. Resources therefore live in an explicit store, a map
  from addresses to objects; \<^verbatim>\<open>SkDELETE\<close> removes the address from the store, and a
  method called through a pointer that is no longer in the store has no defined result
  (\<open>None\<close>).

  The class \<^verbatim>\<open>GrGpuResource\<close> itself is declared in \<^verbatim>\<open>GrGpuResource.h\<close>, which is not
  part of the sources. The record below has the members the gate reads or writes (the
  content key behind \<^verbatim>\<open>getContentKey()\<close> and the budget flag behind
  \<^verbatim>\<open>resourcePriv().isBudgeted()\<close> among them), and a count of the external holders of the
  object. The methods \<^verbatim>\<open>release()\<close>,
  \<^verbatim>\<open>abandon()\<close> and \<^verbatim>\<open>isPurgeable()\<close> of the resource, which the gate calls, are
  parameters of the model (\<open>resource_hooks\<close>): they are arbitrary functions on the
  whole state, so every theorem about the gate holds for every implementation of them.
\<close>

type_synonym addr = nat

type_synonym GrResourceKey = "nat option"

definition isValid :: "GrResourceKey \<Rightarrow> bool" where
  "isValid k = (k \<noteq> None)"

text \<open>
  Modelled from the spec: the enumeration of lifecycle modes is declared in
  \<^verbatim>\<open>GrGpuResource.h\<close> (absent); the spec gives it two values, owned and wrapped, and the
  gate names the second \<^verbatim>\<open>kWrapped_LifeCycle\<close>.
\<close>

datatype LifeCycle = kOwned_LifeCycle | kWrapped_LifeCycle

record GrGpuResource =
  fContentKey :: GrResourceKey
  fScratchKey :: GrResourceKey
  fBudgeted :: bool
  fLifeCycle :: LifeCycle
  fTimestamp :: "32 word"
  fCacheArrayIndex :: int
  fRefCnt :: nat

definition getContentKey :: "GrGpuResource \<Rightarrow> GrResourceKey" where
  "getContentKey r = fContentKey r"

definition isBudgeted :: "GrGpuResource \<Rightarrow> bool" where
  "isBudgeted r = fBudgeted r"

datatype driver_call = DriverFree addr

record world =
  heap :: "addr \<rightharpoonup> GrGpuResource"
  driver_log :: "driver_call list"

record resource_hooks =
  release_hook :: "addr \<Rightarrow> world \<Rightarrow> world"
  abandon_hook :: "addr \<Rightarrow> world \<Rightarrow> world"
  isPurgeable :: "GrGpuResource \<Rightarrow> bool"

record CacheAccess =
  fResource :: addr

definition cacheAccess :: "addr \<Rightarrow> CacheAccess" where
  "cacheAccess a = \<lparr>fResource = a\<rparr>"

definition SkDELETE :: "addr \<Rightarrow> world \<Rightarrow> world" where
  "SkDELETE a w = w\<lparr>heap := (heap w)(a := None)\<rparr>"

definition isScratch :: "world \<Rightarrow> CacheAccess \<Rightarrow> bool option" where
  "isScratch w g =
     (case heap w (fResource g) of
        None \<Rightarrow> None
      | Some r \<Rightarrow> Some (\<not> isValid (getContentKey r) \<and> isValid (fScratchKey r) \<and> isBudgeted r))"

definition isWrapped :: "world \<Rightarrow> CacheAccess \<Rightarrow> bool option" where
  "isWrapped w g =
     (case heap w (fResource g) of
        None \<Rightarrow> None
      | Some r \<Rightarrow> Some (kWrapped_LifeCycle = fLifeCycle r))"

text \<open>
  \<^verbatim>\<open>release()\<close>: the hook runs first; \<^verbatim>\<open>isPurgeable()\<close> is then asked of the object as
  the hook left it, and the object is deleted when the answer is yes.
\<close>

definition release :: "resource_hooks \<Rightarrow> CacheAccess \<Rightarrow> world \<Rightarrow> world option" where
  "release cls g w =
     (case heap w (fResource g) of
        None \<Rightarrow> None
      | Some _ \<Rightarrow>
          (let w1 = release_hook cls (fResource g) w in
           case heap w1 (fResource g) of
             None \<Rightarrow> None
           | Some r1 \<Rightarrow>
               if isPurgeable cls r1 then Some (SkDELETE (fResource g) w1) else Some w1))"

definition abandon :: "resource_hooks \<Rightarrow> CacheAccess \<Rightarrow> world \<Rightarrow> world option" where
  "abandon cls g w =
     (case heap w (fResource g) of
        None \<Rightarrow> None
      | Some _ \<Rightarrow>
          (let w1 = abandon_hook cls (fResource g) w in
           case heap w1 (fResource g) of
             None \<Rightarrow> None
           | Some r1 \<Rightarrow>
               if isPurgeable cls r1 then Some (SkDELETE (fResource g) w1) else Some w1))"

definition timestamp :: "world \<Rightarrow> CacheAccess \<Rightarrow> 32 word option" where
  "timestamp w g = map_option fTimestamp (heap w (fResource g))"

definition setTimestamp :: "CacheAccess \<Rightarrow> 32 word \<Rightarrow> world \<Rightarrow> world option" where
  "setTimestamp g ts w =
     (case heap w (fResource g) of
        None \<Rightarrow> None
      | Some r \<Rightarrow> Some (w\<lparr>heap := (heap w)(fResource g \<mapsto> r\<lparr>fTimestamp := ts\<rparr>)\<rparr>))"

text \<open>
  \<^verbatim>\<open>accessCacheIndex()\<close> returns the address of \<^verbatim>\<open>fCacheArrayIndex\<close>; the cache reads and
  writes the member through it. A read and a write through that pointer:
\<close>

definition accessCacheIndex :: "world \<Rightarrow> CacheAccess \<Rightarrow> int option" where
  "accessCacheIndex w g = map_option fCacheArrayIndex (heap w (fResource g))"

definition accessCacheIndex_store :: "CacheAccess \<Rightarrow> int \<Rightarrow> world \<Rightarrow> world option" where
  "accessCacheIndex_store g i w =
     (case heap w (fResource g) of
        None \<Rightarrow> None
      | Some r \<Rightarrow> Some (w\<lparr>heap := (heap w)(fResource g \<mapsto> r\<lparr>fCacheArrayIndex := i\<rparr>)\<rparr>))"

text \<open>The operations the cache can perform on a resource through the gate.\<close>

datatype gate_op =
    Release
  | Abandon
  | SetTimestamp "32 word"
  | StoreCacheIndex int

fun gate_step :: "resource_hooks \<Rightarrow> CacheAccess \<times> gate_op \<Rightarrow> world \<Rightarrow> world option" where
  "gate_step cls (g, Release) w = release cls g w"
| "gate_step cls (g, Abandon) w = abandon cls g w"
| "gate_step cls (g, SetTimestamp ts) w = setTimestamp g ts w"
| "gate_step cls (g, StoreCacheIndex i) w = accessCacheIndex_store g i w"

fun gate_run :: "resource_hooks \<Rightarrow> (CacheAccess \<times> gate_op) list \<Rightarrow> world \<Rightarrow> world option" where
  "gate_run cls [] w = Some w"
| "gate_run cls (op # ops) w =
     (case gate_step cls op w of None \<Rightarrow> None | Some w1 \<Rightarrow> gate_run cls ops w1)"

text \<open>
  Modelled from the spec: an implementation of the three resource methods as the spec
  describes them. The normal release hook returns the GPU allocation to the driver
  (one driver call), except for a wrapped resource, whose allocation is externally
  owned; the device-lost hook issues no driver call; a resource is purgeable when it
  has no external holder. Neither hook changes the store. What the theorems say of the
  gate holds for every implementation of the three methods; this one is the concrete
  input of their witnesses, and its device-lost hook is the one of which the absence of
  driver calls is stated.
\<close>

definition spec_release_hook :: "addr \<Rightarrow> world \<Rightarrow> world" where
  "spec_release_hook a w =
     (case heap w a of
        None \<Rightarrow> w
      | Some r \<Rightarrow>
          if fLifeCycle r = kWrapped_LifeCycle then w
          else w\<lparr>driver_log := driver_log w @ [DriverFree a]\<rparr>)"

definition spec_abandon_hook :: "addr \<Rightarrow> world \<Rightarrow> world" where
  "spec_abandon_hook a w = w"

definition spec_hooks :: resource_hooks where
  "spec_hooks =
     \<lparr>release_hook = spec_release_hook,
      abandon_hook = spec_abandon_hook,
      isPurgeable = (\<lambda>r. fRefCnt r = 0)\<rparr>"

definition held_texture :: GrGpuResource where
  "held_texture =
     \<lparr>fContentKey = None, fScratchKey = Some 7, fBudgeted = True,
      fLifeCycle = kOwned_LifeCycle, fTimestamp = 5, fCacheArrayIndex = 0, fRefCnt = 2\<rparr>"

definition idle_texture :: GrGpuResource where
  "idle_texture =
     \<lparr>fContentKey = Some 3, fScratchKey = Some 7, fBudgeted = True,
      fLifeCycle = kOwned_LifeCycle, fTimestamp = 2, fCacheArrayIndex = 1, fRefCnt = 0\<rparr>"

definition two_textures :: world where
  "two_textures = \<lparr>heap = [16 \<mapsto> held_texture, 32 \<mapsto> idle_texture], driver_log = []\<rparr>"

section \<open>The pixel transfer test (tests/TransferPixelsTest.cpp)\<close>

text \<open>
  A \<^verbatim>\<open>GrColor*\<close> is modelled as a list of 32-bit colours together with integer
  offsets from its first element. \<^verbatim>\<open>p[k]\<close> is defined only when \<open>k\<close> lies inside the
  array; a read or a write outside it has no defined result (\<open>None\<close>). The \<^verbatim>\<open>int\<close>
  variables of the source are mathematical integers: signed overflow has no defined
  result in C++ either, and an index that stays inside an array does not overflow.
\<close>

type_synonym GrColor = "32 word"

definition load :: "'a list \<Rightarrow> int \<Rightarrow> 'a option" where
  "load xs k = (if 0 \<le> k \<and> k < int (length xs) then Some (xs ! nat k) else None)"

definition store :: "'a list \<Rightarrow> int \<Rightarrow> 'a \<Rightarrow> 'a list option" where
  "store xs k v = (if 0 \<le> k \<and> k < int (length xs) then Some (xs[nat k := v]) else None)"

text \<open>
  \<^verbatim>\<open>GrColorPackRGBA\<close> and the shift amounts \<^verbatim>\<open>GrColor_SHIFT_R\<close>, ... are declared in
  \<^verbatim>\<open>GrColor.h\<close>, which is not part of the sources. The four shift amounts are a
  parameter of the model; packing shifts each channel to its place and combines the
  four with bitwise or, and unpacking shifts back and masks with \<^verbatim>\<open>0xFF\<close>.
\<close>

record GrColorShifts =
  GrColor_SHIFT_R :: nat
  GrColor_SHIFT_G :: nat
  GrColor_SHIFT_B :: nat
  GrColor_SHIFT_A :: nat

definition GrColorPackRGBA ::
  "GrColorShifts \<Rightarrow> 32 word \<Rightarrow> 32 word \<Rightarrow> 32 word \<Rightarrow> 32 word \<Rightarrow> GrColor" where
  "GrColorPackRGBA sh r g b a =
     push_bit (GrColor_SHIFT_R sh) r OR push_bit (GrColor_SHIFT_G sh) g OR
     push_bit (GrColor_SHIFT_B sh) b OR push_bit (GrColor_SHIFT_A sh) a"

definition GrColorUnpackR :: "GrColorShifts \<Rightarrow> GrColor \<Rightarrow> 32 word" where
  "GrColorUnpackR sh c = drop_bit (GrColor_SHIFT_R sh) c AND 0xFF"

definition GrColorUnpackG :: "GrColorShifts \<Rightarrow> GrColor \<Rightarrow> 32 word" where
  "GrColorUnpackG sh c = drop_bit (GrColor_SHIFT_G sh) c AND 0xFF"

definition GrColorUnpackB :: "GrColorShifts \<Rightarrow> GrColor \<Rightarrow> 32 word" where
  "GrColorUnpackB sh c = drop_bit (GrColor_SHIFT_B sh) c AND 0xFF"

definition GrColorUnpackA :: "GrColorShifts \<Rightarrow> GrColor \<Rightarrow> 32 word" where
  "GrColorUnpackA sh c = drop_bit (GrColor_SHIFT_A sh) c AND 0xFF"

definition rgba_shifts :: GrColorShifts where
  "rgba_shifts =
     \<lparr>GrColor_SHIFT_R = 0, GrColor_SHIFT_G = 8, GrColor_SHIFT_B = 16, GrColor_SHIFT_A = 24\<rparr>"

text \<open>
  \<^verbatim>\<open>fill_transfer_data\<close> computes each channel level in single-precision floating
  point: \<^verbatim>\<open>(unsigned int)(256.f*((i - left) / (float)width))\<close>. That expression is a
  parameter \<open>scale\<close> of the model, applied to the two integers \<open>i - left\<close> and \<open>width\<close>;
  the theorems about \<^verbatim>\<open>fill_transfer_data\<close> hold for every function \<open>scale\<close>, hence for
  the floating point one. \<open>exact_scale\<close> is its value whenever the quotient is
  representable exactly, as it is for the widths 16 and 2 used below.
\<close>

type_synonym scale = "int \<Rightarrow> int \<Rightarrow> 32 word"

definition exact_scale :: scale where
  "exact_scale k n = word_of_int ((256 * k) div n)"

function fill_row ::
  "scale \<Rightarrow> GrColorShifts \<Rightarrow> int \<Rightarrow> int \<Rightarrow> int \<Rightarrow> int \<Rightarrow> int \<Rightarrow> int \<Rightarrow> int \<Rightarrow>
     GrColor list \<Rightarrow> GrColor list option" where
  "fill_row sc sh left top' width height bufferWidth j i data =
     (if i < left + width then
        (let red = sc (i - left) width;
             green = sc (j - top') height
         in case store data (i + j * bufferWidth)
                   (GrColorPackRGBA sh (red - drop_bit 8 red) (green - drop_bit 8 green) 0xff 0xff) of
              None \<Rightarrow> None
            | Some data1 \<Rightarrow> fill_row sc sh left top' width height bufferWidth j (i + 1) data1)
      else Some data)"
  by pat_completeness auto
termination
  by (relation "measure (\<lambda>(sc, sh, left, top', width, height, bufferWidth, j, i, data).
        nat (left + width - i))") auto

function fill_rows ::
  "scale \<Rightarrow> GrColorShifts \<Rightarrow> int \<Rightarrow> int \<Rightarrow> int \<Rightarrow> int \<Rightarrow> int \<Rightarrow> int \<Rightarrow>
     GrColor list \<Rightarrow> GrColor list option" where
  "fill_rows sc sh left top' width height bufferWidth j data =
     (if j < top' + height then
        (case fill_row sc sh left top' width height bufferWidth j left data of
           None \<Rightarrow> None
         | Some data1 \<Rightarrow> fill_rows sc sh left top' width height bufferWidth (j + 1) data1)
      else Some data)"
  by pat_completeness auto
termination
  by (relation "measure (\<lambda>(sc, sh, left, top', width, height, bufferWidth, j, data).
        nat (top' + height - j))") auto

definition fill_transfer_data ::
  "scale \<Rightarrow> GrColorShifts \<Rightarrow> int \<Rightarrow> int \<Rightarrow> int \<Rightarrow> int \<Rightarrow> int \<Rightarrow>
     GrColor list \<Rightarrow> GrColor list option" where
  "fill_transfer_data sc sh left top' width height bufferWidth data =
     fill_rows sc sh left top' width height bufferWidth top' data"

datatype GrSurfaceOrigin = kTopLeft_GrSurfaceOrigin | kBottomLeft_GrSurfaceOrigin

text \<open>
  The inner loop of \<^verbatim>\<open>does_full_buffer_contain_correct_values\<close>: \<open>Some False\<close> is the
  early \<^verbatim>\<open>return false\<close>, \<open>Some True\<close> the end of the row.
\<close>

function compare_row ::
  "GrColor list \<Rightarrow> GrColor list \<Rightarrow> int \<Rightarrow> int \<Rightarrow> int \<Rightarrow> int \<Rightarrow> bool option" where
  "compare_row srcBuffer dstBuffer width srcPtr dstPtr i =
     (if i < width then
        (case (load srcBuffer (srcPtr + i), load dstBuffer (dstPtr + i)) of
           (Some a, Some b) \<Rightarrow>
             if a \<noteq> b then Some False
             else compare_row srcBuffer dstBuffer width srcPtr dstPtr (i + 1)
         | _ \<Rightarrow> None)
      else Some True)"
  by pat_completeness auto
termination
  by (relation "measure (\<lambda>(srcBuffer, dstBuffer, width, srcPtr, dstPtr, i). nat (width - i))")
    auto

function compare_rows ::
  "GrColor list \<Rightarrow> GrColor list \<Rightarrow> int \<Rightarrow> int \<Rightarrow> int \<Rightarrow> int \<Rightarrow> int \<Rightarrow> int \<Rightarrow> int \<Rightarrow>
     bool option" where
  "compare_rows srcBuffer dstBuffer width height bufferWidth dstIncrement srcPtr dstPtr j =
     (if j < height then
        (case compare_row srcBuffer dstBuffer width srcPtr dstPtr 0 of
           None \<Rightarrow> None
         | Some False \<Rightarrow> Some False
         | Some True \<Rightarrow>
             compare_rows srcBuffer dstBuffer width height bufferWidth dstIncrement
               (srcPtr + bufferWidth) (dstPtr + dstIncrement) (j + 1))
      else Some True)"
  by pat_completeness auto
termination
  by (relation "measure (\<lambda>(srcBuffer, dstBuffer, width, height, bufferWidth, dstIncrement,
        srcPtr, dstPtr, j). nat (height - j))") auto

definition does_full_buffer_contain_correct_values ::
  "GrColor list \<Rightarrow> GrColor list \<Rightarrow> int \<Rightarrow> int \<Rightarrow> int \<Rightarrow> int \<Rightarrow> GrSurfaceOrigin \<Rightarrow>
     bool option" where
  "does_full_buffer_contain_correct_values srcBuffer dstBuffer width height bufferWidth
       bufferHeight origin =
     (let srcPtr = 0;
          bottomUp = (kBottomLeft_GrSurfaceOrigin = origin);
          dstPtr = (if bottomUp then 0 + bufferWidth * (bufferHeight - 1) else 0);
          dstIncrement = (if bottomUp then - bufferWidth else bufferWidth)
      in compare_rows srcBuffer dstBuffer width height bufferWidth dstIncrement srcPtr dstPtr 0)"

section \<open>The transfer buffer protocol\<close>

text \<open>
  \<^verbatim>\<open>GrGpu::transferPixels\<close> and \<^verbatim>\<open>GrGpu::readPixels\<close> are called by the test but are not
  part of the sources, and so are the texture and the capability classes. This section
  models them from the spec, at the level of bytes: a buffer is a list of bytes, and a
  texture holds its texels row by row, physical row 0 first, without padding.
\<close>

type_synonym byte = "8 word"

datatype GrColorType = kRGBA_8888 | kBGRA_8888

fun GrColorTypeBytesPerPixel :: "GrColorType \<Rightarrow> nat" where
  "GrColorTypeBytesPerPixel kRGBA_8888 = 4"
| "GrColorTypeBytesPerPixel kBGRA_8888 = 4"

datatype GrPixelConfig =
    kUnknown_GrPixelConfig
  | kRGBA_8888_GrPixelConfig
  | kBGRA_8888_GrPixelConfig
  | kSRGBA_8888_GrPixelConfig
  | kSBGRA_8888_GrPixelConfig

text \<open>
  Modelled from the spec: a texture (class \<^verbatim>\<open>GrTexture\<close>, absent) has a width, a height and
  a format, and holds \<open>width * height\<close> texels of four bytes.
\<close>

record GrTexture =
  texWidth :: nat
  texHeight :: nat
  texConfig :: GrPixelConfig
  texels :: "byte list"

definition wf_texture :: "GrTexture \<Rightarrow> bool" where
  "wf_texture t = (length (texels t) = texWidth t * texHeight t * 4)"

text \<open>
  Modelled from the spec: the capability queries (class \<^verbatim>\<open>GrCaps\<close>, absent) answer whether
  a format accepts a transfer from a mapped buffer, and whether it can be read back.
\<close>

record GrCaps =
  transferSupported :: "GrPixelConfig \<Rightarrow> bool"
  readSupported :: "GrPixelConfig \<Rightarrow> bool"

text \<open>
  Modelled from the spec: the copy of a rectangle, row by row, that both operations of
  the protocol perform (their code is absent). \<open>read_span xs pos n\<close> reads \<open>n\<close> elements
  at position \<open>pos\<close>, \<open>write_span xs pos ys\<close> writes \<open>ys\<close> at position \<open>pos\<close>; neither is
  defined when the range leaves the list. \<open>copy_rows\<close> copies one run of \<open>n\<close> elements per
  row, for the rows listed, in order; row \<open>j\<close> is read at position \<open>sp j\<close> of the source
  and written at position \<open>dp j\<close> of the destination.
\<close>

definition read_span :: "'a list \<Rightarrow> nat \<Rightarrow> nat \<Rightarrow> 'a list option" where
  "read_span xs pos n = (if pos + n \<le> length xs then Some (take n (drop pos xs)) else None)"

definition write_span :: "'a list \<Rightarrow> nat \<Rightarrow> 'a list \<Rightarrow> 'a list option" where
  "write_span xs pos ys =
     (if pos + length ys \<le> length xs
      then Some (take pos xs @ ys @ drop (pos + length ys) xs) else None)"

fun copy_rows ::
  "(nat \<Rightarrow> nat) \<Rightarrow> (nat \<Rightarrow> nat) \<Rightarrow> nat \<Rightarrow> 'a list \<Rightarrow> nat list \<Rightarrow> 'a list \<Rightarrow> 'a list option" where
  "copy_rows sp dp n src [] dst = Some dst"
| "copy_rows sp dp n src (j # js) dst =
     (case read_span src (sp j) n of
        None \<Rightarrow> None
      | Some row \<Rightarrow>
          (case write_span dst (dp j) row of
             None \<Rightarrow> None
           | Some dst1 \<Rightarrow> copy_rows sp dp n src js dst1))"

text \<open>
  Modelled from the spec: \<^verbatim>\<open>transferPixels\<close> ``copies \<open>height\<close> rows of \<open>width\<close> pixels each,
  reading from \<open>buffer\<close> starting at \<open>bufferOffsetBytes\<close>, advancing \<open>rowBytes\<close> per row,
  into the texture sub-rectangle at \<open>(x, y)\<close>. Fails (returns false, no partial visible
  effect guaranteed) when the target format cannot accept a mapped-buffer-sourced
  transfer, or the rectangle lies outside texture bounds.'' The function has no origin
  parameter: row \<open>j\<close> of the transfer goes to physical row \<open>y + j\<close>. A source range that
  leaves the buffer, which the spec does not describe, is a failure as well, so that no
  undefined byte is ever read. The result is the success flag and the texture after
  the call.
\<close>

definition transferPixels ::
  "GrCaps \<Rightarrow> GrTexture \<Rightarrow> int \<Rightarrow> int \<Rightarrow> int \<Rightarrow> int \<Rightarrow> GrColorType \<Rightarrow> byte list \<Rightarrow> nat \<Rightarrow> nat \<Rightarrow>
     bool \<times> GrTexture" where
  "transferPixels caps texture x y width height colorFormat buffer bufferOffsetBytes rowBytes =
     (if \<not> transferSupported caps (texConfig texture) then (False, texture)
      else if \<not> (0 \<le> x \<and> 0 \<le> y \<and> 0 \<le> width \<and> 0 \<le> height \<and>
                 x + width \<le> int (texWidth texture) \<and> y + height \<le> int (texHeight texture))
      then (False, texture)
      else
        (let bpp = GrColorTypeBytesPerPixel colorFormat in
         case copy_rows (\<lambda>j. bufferOffsetBytes + j * rowBytes)
                (\<lambda>j. ((nat y + j) * texWidth texture + nat x) * bpp)
                (nat width * bpp) buffer [0..<nat height] (texels texture) of
           None \<Rightarrow> (False, texture)
         | Some t \<Rightarrow> (True, texture\<lparr>texels := t\<rparr>)))"

text \<open>
  Modelled from the spec: the physical row that holds the logical (top-down) row \<open>j\<close>:
  ``when the texture's origin convention is bottom-up, row \<open>j\<close> of the logical top-down
  result must be sourced from physical row \<open>(textureHeight - 1 - j)\<close>''.
\<close>

definition physical_row :: "GrSurfaceOrigin \<Rightarrow> nat \<Rightarrow> nat \<Rightarrow> nat" where
  "physical_row origin textureHeight j =
     (case origin of
        kTopLeft_GrSurfaceOrigin \<Rightarrow> j
      | kBottomLeft_GrSurfaceOrigin \<Rightarrow> textureHeight - 1 - j)"

text \<open>
  Modelled from the spec: \<^verbatim>\<open>readPixels\<close> ``reads back a rectangle''; ``the output buffer is
  always written top-down regardless of source origin'': row \<open>j\<close> of the rectangle is
  logical row \<open>y + j\<close> of the texture and is written at \<open>j * rowBytes\<close>. It fails for a
  format that cannot be read, for a rectangle outside the texture, and (not described
  by the spec) for an output buffer that is too short; a failed call leaves the output
  buffer as it was. The result is the success flag and the output buffer after the call.
\<close>

definition readPixels ::
  "GrCaps \<Rightarrow> GrTexture \<Rightarrow> GrSurfaceOrigin \<Rightarrow> int \<Rightarrow> int \<Rightarrow> int \<Rightarrow> int \<Rightarrow> GrColorType \<Rightarrow>
     byte list \<Rightarrow> nat \<Rightarrow> bool \<times> byte list" where
  "readPixels caps texture origin x y width height colorFormat outBuffer rowBytes =
     (if \<not> readSupported caps (texConfig texture) then (False, outBuffer)
      else if \<not> (0 \<le> x \<and> 0 \<le> y \<and> 0 \<le> width \<and> 0 \<le> height \<and>
                 x + width \<le> int (texWidth texture) \<and> y + height \<le> int (texHeight texture))
      then (False, outBuffer)
      else
        (let bpp = GrColorTypeBytesPerPixel colorFormat in
         case copy_rows
                (\<lambda>j. (physical_row origin (texHeight texture) (nat y + j) * texWidth texture +
                       nat x) * bpp)
                (\<lambda>j. j * rowBytes)
                (nat width * bpp) (texels texture) [0..<nat height] outBuffer of
           None \<Rightarrow> (False, outBuffer)
         | Some out \<Rightarrow> (True, out)))"

definition all_caps :: GrCaps where
  "all_caps = \<lparr>transferSupported = (\<lambda>c. c \<noteq> kUnknown_GrPixelConfig),
               readSupported = (\<lambda>c. c \<noteq> kUnknown_GrPixelConfig)\<rparr>"

definition blank_texture :: "nat \<Rightarrow> nat \<Rightarrow> GrTexture" where
  "blank_texture w h =
     \<lparr>texWidth = w, texHeight = h, texConfig = kRGBA_8888_GrPixelConfig,
      texels = replicate (w * h * 4) 0\<rparr>"

text \<open>
  The test moves pixels between its \<^verbatim>\<open>GrColor\<close> arrays and the byte buffers with
  \<^verbatim>\<open>memcpy\<close> and by passing the array as \<^verbatim>\<open>void*\<close>: a colour is the four bytes of its
  object representation, least significant byte first.
\<close>

definition GrColor_bytes :: "GrColor \<Rightarrow> byte list" where
  "GrColor_bytes c = [ucast c, ucast (drop_bit 8 c), ucast (drop_bit 16 c), ucast (drop_bit 24 c)]"

definition bytes_GrColor :: "byte list \<Rightarrow> GrColor" where
  "bytes_GrColor bs =
     ucast (bs ! 0) OR push_bit 8 (ucast (bs ! 1)) OR push_bit 16 (ucast (bs ! 2)) OR
     push_bit 24 (ucast (bs ! 3))"

definition colors_to_bytes :: "GrColor list \<Rightarrow> byte list" where
  "colors_to_bytes cs = concat (map GrColor_bytes cs)"

definition bytes_to_colors :: "byte list \<Rightarrow> GrColor list" where
  "bytes_to_colors bs = map (\<lambda>k. bytes_GrColor (take 4 (drop (4 * k) bs))) [0..<length bs div 4]"

definition two_row_texture :: GrTexture where
  "two_row_texture =
     \<lparr>texWidth = 1, texHeight = 2, texConfig = kRGBA_8888_GrPixelConfig,
      texels = [0, 0, 255, 255, 0, 128, 255, 255]\<rparr>"

definition three_row_texture :: GrTexture where
  "three_row_texture =
     \<lparr>texWidth = 1, texHeight = 3, texConfig = kRGBA_8888_GrPixelConfig,
      texels = [10, 11, 12, 13, 20, 21, 22, 23, 30, 31, 32, 33]\<rparr>"

text \<open>
  The body of \<^verbatim>\<open>basic_transfer_test\<close> for one texture, from the first
  \<^verbatim>\<open>fill_transfer_data\<close> on: \<open>srcBuffer\<close> is the freshly allocated (uninitialised)
  source array and \<open>tex\<close> the texture that \<^verbatim>\<open>createTexture\<close> returned. The result is the
  list of the values passed to \<^verbatim>\<open>REPORTER_ASSERT\<close>, in order; an assertion guarded by
  \<^verbatim>\<open>if (result)\<close> adds nothing when the read failed. \<^verbatim>\<open>memset(dst, 0xCDCD, size)\<close> stores the
  byte \<^verbatim>\<open>0xCD\<close>. The result is \<open>None\<close> when a helper reads or writes outside an array.
\<close>

definition basic_transfer_test ::
  "scale \<Rightarrow> GrColorShifts \<Rightarrow> GrCaps \<Rightarrow> GrColorType \<Rightarrow> GrSurfaceOrigin \<Rightarrow> GrColor list \<Rightarrow>
     GrTexture \<Rightarrow> bool list option" where
  "basic_transfer_test sc sh caps colorType origin srcBuffer tex =
     (let kTextureWidth = 16; kTextureHeight = 16; kBufferWidth = 20; kBufferHeight = 16;
          rowBytes = nat kBufferWidth * 4;
          size' = rowBytes * nat kBufferHeight
      in
      case fill_transfer_data sc sh 0 0 kTextureWidth kTextureHeight kBufferWidth srcBuffer of
        None \<Rightarrow> None
      | Some srcBuffer1 \<Rightarrow>
          (let buffer1 = take size' (colors_to_bytes srcBuffer1);
               transferred1 = transferPixels caps tex 0 0 kTextureWidth kTextureHeight colorType
                                buffer1 0 rowBytes;
               read1 = readPixels caps (snd transferred1) origin 0 0 kTextureWidth kTextureHeight
                         colorType (replicate size' 0xCD) rowBytes
           in
           case (if fst read1
                 then map_option (\<lambda>r. [r])
                        (does_full_buffer_contain_correct_values srcBuffer1
                           (bytes_to_colors (snd read1)) kTextureWidth kTextureHeight kBufferWidth
                           kBufferHeight origin)
                 else Some []) of
             None \<Rightarrow> None
           | Some checked1 \<Rightarrow>
               (let kLeft = 2; kTop = 10; kWidth = 10; kHeight = 2 in
                case fill_transfer_data sc sh kLeft kTop kWidth kHeight kBufferWidth srcBuffer1 of
                  None \<Rightarrow> None
                | Some srcBuffer2 \<Rightarrow>
                    (let buffer2 = take size' (colors_to_bytes srcBuffer2);
                         offset = 4 * nat (kTop * kBufferWidth + kLeft);
                         transferred2 = transferPixels caps (snd transferred1) kLeft kTop kWidth
                                          kHeight colorType buffer2 offset rowBytes;
                         read2 = readPixels caps (snd transferred2) origin 0 0 kTextureWidth
                                   kTextureHeight colorType (replicate size' 0xCD) rowBytes
                     in
                     case (if fst read2
                           then map_option (\<lambda>r. [r])
                                  (does_full_buffer_contain_correct_values srcBuffer2
                                     (bytes_to_colors (snd read2)) kTextureWidth kTextureHeight
                                     kBufferWidth kBufferHeight origin)
                           else Some []) of
                       None \<Rightarrow> None
                     | Some checked2 \<Rightarrow>
                         Some ([fst transferred1] @ checked1 @ [fst transferred2] @ checked2)))))"

section \<open>Properties of the cache access gate\<close>

lemma release_live:
  assumes "heap w a = Some r" and "heap (release_hook cls a w) a = Some r1"
  shows "release cls (cacheAccess a) w =
           Some (if isPurgeable cls r1 then SkDELETE a (release_hook cls a w)
                 else release_hook cls a w)"
  using assms by (simp add: release_def cacheAccess_def Let_def)

lemma abandon_live:
  assumes "heap w a = Some r" and "heap (abandon_hook cls a w) a = Some r1"
  shows "abandon cls (cacheAccess a) w =
           Some (if isPurgeable cls r1 then SkDELETE a (abandon_hook cls a w)
                 else abandon_hook cls a w)"
  using assms by (simp add: abandon_def cacheAccess_def Let_def)

lemma heap_SkDELETE: "heap (SkDELETE a w) b = (if b = a then None else heap w b)"
  by (simp add: SkDELETE_def)

lemma driver_log_SkDELETE: "driver_log (SkDELETE a w) = driver_log w"
  by (simp add: SkDELETE_def)

lemma isScratch_live:
  "heap w a = Some r \<Longrightarrow>
     isScratch w (cacheAccess a) =
       Some (\<not> isValid (getContentKey r) \<and> isValid (fScratchKey r) \<and> isBudgeted r)"
  by (simp add: isScratch_def cacheAccess_def)

lemma setTimestamp_isScratch:
  "setTimestamp g ts w = Some w' \<Longrightarrow> isScratch w' g' = isScratch w g'"
  by (auto simp: setTimestamp_def isScratch_def getContentKey_def isBudgeted_def
      split: option.splits if_splits)

lemma accessCacheIndex_store_isScratch:
  "accessCacheIndex_store g i w = Some w' \<Longrightarrow> isScratch w' g' = isScratch w g'"
  by (auto simp: accessCacheIndex_store_def isScratch_def getContentKey_def isBudgeted_def
      split: option.splits if_splits)

lemma two_textures_simps:
  "heap two_textures 16 = Some held_texture"
  "heap two_textures 32 = Some idle_texture"
  "heap (release_hook spec_hooks a two_textures) = heap two_textures"
  "heap (abandon_hook spec_hooks a two_textures) = heap two_textures"
  "isPurgeable spec_hooks idle_texture"
  "\<not> isPurgeable spec_hooks held_texture"
  by (simp_all add: two_textures_def spec_hooks_def spec_release_hook_def spec_abandon_hook_def
      held_texture_def idle_texture_def split: option.splits)

text \<open>
  Claim C1. For every resource, a call of the gate's \<^verbatim>\<open>release()\<close> or \<^verbatim>\<open>abandon()\<close>
  destroys the object if and only if \<^verbatim>\<open>isPurgeable()\<close> holds of it right after the
  teardown hook has run. A resource that is not purgeable then is not deleted by the
  gate: the call returns the state exactly as the hook left it, so the object stays in
  the store for its holders. No other object is deleted by the call. This holds for
  every implementation of the two hooks and of \<^verbatim>\<open>isPurgeable()\<close>, as long as the hook
  itself leaves the object alive.
\<close>

theorem gate_destroys_iff_purgeable:
  assumes live: "heap w a = Some r"
    and rel: "heap (release_hook cls a w) a = Some r1"
    and abn: "heap (abandon_hook cls a w) a = Some r2"
  shows "(\<exists>w'. release cls (cacheAccess a) w = Some w' \<and>
             (heap w' a = None \<longleftrightarrow> isPurgeable cls r1) \<and>
             (\<not> isPurgeable cls r1 \<longrightarrow> w' = release_hook cls a w) \<and>
             (\<forall>b. b \<noteq> a \<longrightarrow> heap w' b = heap (release_hook cls a w) b)) \<and>
         (\<exists>w'. abandon cls (cacheAccess a) w = Some w' \<and>
             (heap w' a = None \<longleftrightarrow> isPurgeable cls r2) \<and>
             (\<not> isPurgeable cls r2 \<longrightarrow> w' = abandon_hook cls a w) \<and>
             (\<forall>b. b \<noteq> a \<longrightarrow> heap w' b = heap (abandon_hook cls a w) b))"
  using rel abn
  by (simp add: release_live [OF live rel] abandon_live [OF live abn] heap_SkDELETE)

theorem gate_destroys_iff_purgeable_witness:
  "heap two_textures 32 = Some idle_texture \<and> isPurgeable spec_hooks idle_texture \<and>
   (\<exists>w'. release spec_hooks (cacheAccess 32) two_textures = Some w' \<and> heap w' 32 = None \<and>
      heap w' 16 = Some held_texture) \<and>
   (\<exists>w'. abandon spec_hooks (cacheAccess 32) two_textures = Some w' \<and> heap w' 32 = None \<and>
      heap w' 16 = Some held_texture) \<and>
   heap two_textures 16 = Some held_texture \<and> \<not> isPurgeable spec_hooks held_texture \<and>
   (\<exists>w'. release spec_hooks (cacheAccess 16) two_textures = Some w' \<and>
      heap w' 16 = Some held_texture) \<and>
   (\<exists>w'. abandon spec_hooks (cacheAccess 16) two_textures = Some w' \<and>
      heap w' 16 = Some held_texture)"
proof -
  have idle: "heap two_textures 32 = Some idle_texture"
    and held: "heap two_textures 16 = Some held_texture"
    and idle_r: "heap (release_hook spec_hooks 32 two_textures) 32 = Some idle_texture"
    and idle_a: "heap (abandon_hook spec_hooks 32 two_textures) 32 = Some idle_texture"
    and held_r: "heap (release_hook spec_hooks 16 two_textures) 16 = Some held_texture"
    and held_a: "heap (abandon_hook spec_hooks 16 two_textures) 16 = Some held_texture"
    by (simp_all add: two_textures_simps)
  show ?thesis
    using gate_destroys_iff_purgeable [OF idle idle_r idle_a]
      gate_destroys_iff_purgeable [OF held held_r held_a]
    by (auto simp: two_textures_simps)
qed

text \<open>
  Claim C2. \<^verbatim>\<open>isScratch()\<close> of a live resource is the conjunction of three of its
  members: no valid content key, a valid scratch key, and budgeted. It is computed from
  them at each call (the record has no member that stores it), so the equation holds in
  every state, in particular in the state after any sequence of gate operations; and
  the two bookkeeping writes of the gate (timestamp, cache index) change the value of
  \<^verbatim>\<open>isScratch()\<close> for no resource.
\<close>

theorem isScratch_is_derived:
  "(heap w a = Some r \<longrightarrow>
      isScratch w (cacheAccess a) =
        Some (\<not> isValid (getContentKey r) \<and> isValid (fScratchKey r) \<and> isBudgeted r)) \<and>
   (gate_run cls ops w = Some w' \<longrightarrow> heap w' a = Some r' \<longrightarrow>
      isScratch w' (cacheAccess a) =
        Some (\<not> isValid (getContentKey r') \<and> isValid (fScratchKey r') \<and> isBudgeted r')) \<and>
   (setTimestamp g ts w = Some w1 \<longrightarrow> isScratch w1 (cacheAccess a) = isScratch w (cacheAccess a)) \<and>
   (accessCacheIndex_store g i w = Some w2 \<longrightarrow>
      isScratch w2 (cacheAccess a) = isScratch w (cacheAccess a))"
  by (simp add: isScratch_live setTimestamp_isScratch accessCacheIndex_store_isScratch)

theorem isScratch_is_derived_witness:
  "heap two_textures 16 = Some held_texture \<and>
   isScratch two_textures (cacheAccess 16) = Some True \<and>
   (\<exists>w'. gate_run spec_hooks
            [(cacheAccess 16, SetTimestamp 9), (cacheAccess 32, Release),
             (cacheAccess 16, StoreCacheIndex 4)] two_textures = Some w' \<and>
          heap w' 16 = Some (held_texture\<lparr>fTimestamp := 9, fCacheArrayIndex := 4\<rparr>) \<and>
          isScratch w' (cacheAccess 16) = Some True) \<and>
   (\<exists>w1. setTimestamp (cacheAccess 32) 7 two_textures = Some w1 \<and>
          isScratch w1 (cacheAccess 16) = Some True) \<and>
   (\<exists>w2. accessCacheIndex_store (cacheAccess 32) 3 two_textures = Some w2 \<and>
          isScratch w2 (cacheAccess 16) = Some True)"
proof -
  have held: "heap two_textures 16 = Some held_texture"
    by (simp add: two_textures_def)
  obtain w' where run: "gate_run spec_hooks
            [(cacheAccess 16, SetTimestamp 9), (cacheAccess 32, Release),
             (cacheAccess 16, StoreCacheIndex 4)] two_textures = Some w'"
    and held': "heap w' 16 = Some (held_texture\<lparr>fTimestamp := 9, fCacheArrayIndex := 4\<rparr>)"
    by (simp add: two_textures_def setTimestamp_def release_def accessCacheIndex_store_def
        cacheAccess_def spec_hooks_def spec_release_hook_def idle_texture_def SkDELETE_def)
  obtain w1 where w1: "setTimestamp (cacheAccess 32) 7 two_textures = Some w1"
    by (simp add: two_textures_def setTimestamp_def cacheAccess_def)
  obtain w2 where w2: "accessCacheIndex_store (cacheAccess 32) 3 two_textures = Some w2"
    by (simp add: two_textures_def accessCacheIndex_store_def cacheAccess_def)
  have scratch: "\<not> isValid (getContentKey held_texture) \<and> isValid (fScratchKey held_texture) \<and>
      isBudgeted held_texture"
    by (simp add: held_texture_def isValid_def getContentKey_def isBudgeted_def)
  have scratch': "\<not> isValid (getContentKey (held_texture\<lparr>fTimestamp := 9, fCacheArrayIndex := 4\<rparr>)) \<and>
      isValid (fScratchKey (held_texture\<lparr>fTimestamp := 9, fCacheArrayIndex := 4\<rparr>)) \<and>
      isBudgeted (held_texture\<lparr>fTimestamp := 9, fCacheArrayIndex := 4\<rparr>)"
    by (simp add: held_texture_def isValid_def getContentKey_def isBudgeted_def)
  show ?thesis
    using isScratch_is_derived [of two_textures 16 held_texture spec_hooks
        "[(cacheAccess 16, SetTimestamp 9), (cacheAccess 32, Release),
          (cacheAccess 16, StoreCacheIndex 4)]" w'
        "held_texture\<lparr>fTimestamp := 9, fCacheArrayIndex := 4\<rparr>" "cacheAccess 32" 7 w1 3 w2]
      held run held' w1 w2 scratch scratch'
    by simp
qed

text \<open>
  Claim C7. The gate's \<^verbatim>\<open>abandon()\<close> runs the device-lost hook of the resource and not
  the normal release hook: its result is the state the device-lost hook returns, with
  the object deleted if and only if it is purgeable in that state, and it is the same
  whatever the release hook \<open>h\<close> is. The gate adds no driver call of its own: the driver
  calls of an \<^verbatim>\<open>abandon()\<close> are exactly those of the hook. The rule for destruction is
  the one of \<^verbatim>\<open>release()\<close>: \<^verbatim>\<open>abandon()\<close> is \<^verbatim>\<open>release()\<close> with the device-lost hook in the
  place of the release hook. All this holds for every implementation of the hooks. The
  device-lost hook as the spec describes it issues no driver call, and with it a call of
  \<^verbatim>\<open>abandon()\<close> on a live resource returns, leaves the list of driver calls as it was,
  deletes the object if and only if it is purgeable, and leaves every other object in
  place, whatever the release hook and the purgeability test are.
\<close>

theorem abandon_runs_device_lost_hook:
  assumes live: "heap w a = Some r"
    and abn: "heap (abandon_hook cls a w) a = Some r1"
  shows "(\<exists>w'. abandon cls (cacheAccess a) w = Some w' \<and>
            w' = (if isPurgeable cls r1 then SkDELETE a (abandon_hook cls a w)
                  else abandon_hook cls a w) \<and>
            abandon (cls\<lparr>release_hook := h\<rparr>) (cacheAccess a) w = Some w' \<and>
            driver_log w' = driver_log (abandon_hook cls a w) \<and>
            (heap w' a = None \<longleftrightarrow> isPurgeable cls r1) \<and>
            abandon cls (cacheAccess a) w =
              release (cls\<lparr>release_hook := abandon_hook cls\<rparr>) (cacheAccess a) w) \<and>
         driver_log (spec_abandon_hook a w) = driver_log w \<and>
         (\<exists>w'. abandon (cls\<lparr>abandon_hook := spec_abandon_hook\<rparr>) (cacheAccess a) w = Some w' \<and>
            abandon (cls\<lparr>abandon_hook := spec_abandon_hook, release_hook := h\<rparr>) (cacheAccess a) w =
              Some w' \<and>
            driver_log w' = driver_log w \<and>
            (heap w' a = None \<longleftrightarrow> isPurgeable cls r) \<and>
            (\<forall>b. b \<noteq> a \<longrightarrow> heap w' b = heap w b))"
proof (intro conjI)
  have 1: "abandon (c\<lparr>release_hook := h\<rparr>) (cacheAccess a) w = abandon c (cacheAccess a) w" for c
    by (simp add: abandon_def cong: option.case_cong)
  have 2: "release (cls\<lparr>release_hook := abandon_hook cls\<rparr>) (cacheAccess a) w =
        abandon cls (cacheAccess a) w"
    by (simp add: abandon_def release_def cong: option.case_cong)
  show "\<exists>w'. abandon cls (cacheAccess a) w = Some w' \<and>
            w' = (if isPurgeable cls r1 then SkDELETE a (abandon_hook cls a w)
                  else abandon_hook cls a w) \<and>
            abandon (cls\<lparr>release_hook := h\<rparr>) (cacheAccess a) w = Some w' \<and>
            driver_log w' = driver_log (abandon_hook cls a w) \<and>
            (heap w' a = None \<longleftrightarrow> isPurgeable cls r1) \<and>
            abandon cls (cacheAccess a) w =
              release (cls\<lparr>release_hook := abandon_hook cls\<rparr>) (cacheAccess a) w"
    using abn by (simp add: 1 2 abandon_live [OF live abn] heap_SkDELETE driver_log_SkDELETE)
  show "driver_log (spec_abandon_hook a w) = driver_log w"
    by (simp add: spec_abandon_hook_def)
  let ?c = "cls\<lparr>abandon_hook := spec_abandon_hook\<rparr>"
  have abn': "heap (abandon_hook ?c a w) a = Some r"
    using live by (simp add: spec_abandon_hook_def)
  have 3: "abandon (cls\<lparr>abandon_hook := spec_abandon_hook, release_hook := h\<rparr>) (cacheAccess a) w =
      abandon ?c (cacheAccess a) w"
    using 1 [of ?c] by simp
  show "\<exists>w'. abandon ?c (cacheAccess a) w = Some w' \<and>
            abandon (cls\<lparr>abandon_hook := spec_abandon_hook, release_hook := h\<rparr>) (cacheAccess a) w =
              Some w' \<and>
            driver_log w' = driver_log w \<and>
            (heap w' a = None \<longleftrightarrow> isPurgeable cls r) \<and>
            (\<forall>b. b \<noteq> a \<longrightarrow> heap w' b = heap w b)"
    using live
    by (simp add: 3 abandon_live [OF live abn'] heap_SkDELETE driver_log_SkDELETE
        spec_abandon_hook_def)
qed

theorem abandon_runs_device_lost_hook_witness:
  "heap two_textures 32 = Some idle_texture \<and>
   heap (abandon_hook spec_hooks 32 two_textures) 32 = Some idle_texture \<and>
   abandon_hook spec_hooks = spec_abandon_hook \<and>
   driver_log two_textures = [] \<and>
   driver_log (spec_abandon_hook 32 two_textures) = [] \<and>
   (\<exists>w'. abandon spec_hooks (cacheAccess 32) two_textures = Some w' \<and>
          abandon (spec_hooks\<lparr>release_hook := (\<lambda>a w. w\<lparr>heap := Map.empty\<rparr>)\<rparr>) (cacheAccess 32)
            two_textures = Some w' \<and>
          driver_log w' = [] \<and> heap w' 32 = None \<and> heap w' 16 = Some held_texture) \<and>
   (\<exists>w'. release spec_hooks (cacheAccess 32) two_textures = Some w' \<and>
          driver_log w' = [DriverFree 32])"
proof -
  have idle: "heap two_textures 32 = Some idle_texture"
    and idle_a: "heap (abandon_hook spec_hooks 32 two_textures) 32 = Some idle_texture"
    and idle_r: "heap (release_hook spec_hooks 32 two_textures) 32 = Some idle_texture"
    by (simp_all add: two_textures_simps)
  have hook: "abandon_hook spec_hooks = spec_abandon_hook"
    "spec_hooks\<lparr>abandon_hook := spec_abandon_hook\<rparr> = spec_hooks"
    by (simp_all add: spec_hooks_def)
  have log: "driver_log two_textures = []"
    "driver_log (release_hook spec_hooks 32 two_textures) = [DriverFree 32]"
    by (simp_all add: two_textures_def spec_hooks_def spec_release_hook_def idle_texture_def)
  have other: "(16::nat) \<noteq> 32" by simp
  note inst = abandon_runs_device_lost_hook [OF idle idle_a, of "\<lambda>a w. w\<lparr>heap := Map.empty\<rparr>"]
  note quiet = inst [THEN conjunct2, THEN conjunct1]
  from inst [THEN conjunct2, THEN conjunct2] obtain w' where
    w': "abandon spec_hooks (cacheAccess 32) two_textures = Some w'"
      "abandon (spec_hooks\<lparr>release_hook := (\<lambda>a w. w\<lparr>heap := Map.empty\<rparr>)\<rparr>) (cacheAccess 32)
         two_textures = Some w'"
      "driver_log w' = driver_log two_textures"
      "heap w' 32 = None \<longleftrightarrow> isPurgeable spec_hooks idle_texture"
      "\<forall>b. b \<noteq> 32 \<longrightarrow> heap w' b = heap two_textures b"
    unfolding hook by (elim exE conjE)
  have held: "heap w' 16 = Some held_texture"
    using w'(5) [THEN spec, of 16, THEN mp, OF other] by (simp add: two_textures_simps)
  have gone: "heap w' 32 = None" using w'(4) by (simp add: two_textures_simps)
  show ?thesis
    using idle idle_a hook(1) log(1) quiet w'(1,2,3) held gone
    by (simp add: log release_live [OF idle idle_r] driver_log_SkDELETE)
qed

section \<open>Properties of the helpers of the pixel transfer test\<close>

declare compare_row.simps [simp del] compare_rows.simps [simp del]

declare fill_row.simps [simp del] fill_rows.simps [simp del]

subsection \<open>The comparison of two buffers\<close>

lemma int_range_split:
  fixes j :: int
  assumes "j < h"
  shows "(\<forall>r. j \<le> r \<and> r < h \<longrightarrow> P r) \<longleftrightarrow> (P j \<and> (\<forall>r. j + 1 \<le> r \<and> r < h \<longrightarrow> P r))"
proof (intro iffI conjI allI impI)
  assume a: "\<forall>r. j \<le> r \<and> r < h \<longrightarrow> P r"
  show "P j" using a assms by simp
  fix r assume "j + 1 \<le> r \<and> r < h"
  then show "P r" using a by simp
next
  fix r assume a: "P j \<and> (\<forall>r. j + 1 \<le> r \<and> r < h \<longrightarrow> P r)" and r: "j \<le> r \<and> r < h"
  show "P r"
  proof (cases "r = j")
    case True then show ?thesis using a by simp
  next
    case False then show ?thesis using a r by simp
  qed
qed

lemma compare_row_True_iff:
  "compare_row src dst width sp dp i = Some True \<longleftrightarrow>
     (\<forall>k. i \<le> k \<and> k < width \<longrightarrow>
        (\<exists>a. load src (sp + k) = Some a \<and> load dst (dp + k) = Some a))"
proof (induction src dst width sp dp i rule: compare_row.induct)
  case (1 src dst width sp dp i)
  show ?case
  proof (cases "i < width")
    case False
    then show ?thesis by (subst compare_row.simps) auto
  next
    case True
    note lt = this
    show ?thesis
    proof (cases "\<exists>a. load src (sp + i) = Some a \<and> load dst (dp + i) = Some a")
      case False
      then have "compare_row src dst width sp dp i \<noteq> Some True"
        using lt by (subst compare_row.simps) (auto split: option.splits)
      moreover have "\<not> (\<forall>k. i \<le> k \<and> k < width \<longrightarrow>
          (\<exists>a. load src (sp + k) = Some a \<and> load dst (dp + k) = Some a))"
        using False lt by (meson order_refl)
      ultimately show ?thesis by blast
    next
      case True
      then obtain a where a: "load src (sp + i) = Some a" "load dst (dp + i) = Some a" by blast
      have step: "compare_row src dst width sp dp i = compare_row src dst width sp dp (i + 1)"
        using lt a by (subst compare_row.simps) simp
      have ih: "compare_row src dst width sp dp (i + 1) = Some True \<longleftrightarrow>
          (\<forall>k. i + 1 \<le> k \<and> k < width \<longrightarrow>
            (\<exists>a. load src (sp + k) = Some a \<and> load dst (dp + k) = Some a))"
        using "1.IH" [OF lt _ a(1) a(2)] by simp
      have "(\<forall>k. i \<le> k \<and> k < width \<longrightarrow>
            (\<exists>a. load src (sp + k) = Some a \<and> load dst (dp + k) = Some a)) \<longleftrightarrow>
          (\<forall>k. i + 1 \<le> k \<and> k < width \<longrightarrow>
            (\<exists>a. load src (sp + k) = Some a \<and> load dst (dp + k) = Some a))"
      proof (intro iffI allI impI)
        fix k assume "\<forall>k. i \<le> k \<and> k < width \<longrightarrow>
            (\<exists>a. load src (sp + k) = Some a \<and> load dst (dp + k) = Some a)" "i + 1 \<le> k \<and> k < width"
        then show "\<exists>a. load src (sp + k) = Some a \<and> load dst (dp + k) = Some a" by simp
      next
        fix k assume h: "\<forall>k. i + 1 \<le> k \<and> k < width \<longrightarrow>
            (\<exists>a. load src (sp + k) = Some a \<and> load dst (dp + k) = Some a)" "i \<le> k \<and> k < width"
        show "\<exists>a. load src (sp + k) = Some a \<and> load dst (dp + k) = Some a"
        proof (cases "k = i")
          case True then show ?thesis using a by simp
        next
          case False then show ?thesis using h by simp
        qed
      qed
      then show ?thesis using step ih by simp
    qed
  qed
qed

lemma compare_row_agree:
  "(\<forall>k. i \<le> k \<and> k < width \<longrightarrow>
       load src' (sp + k) = load src (sp + k) \<and> load dst' (dp + k) = load dst (dp + k)) \<Longrightarrow>
   compare_row src' dst' width sp dp i = compare_row src dst width sp dp i"
proof (induction src dst width sp dp i rule: compare_row.induct)
  case (1 src dst width sp dp i)
  show ?case
  proof (cases "i < width")
    case False
    then show ?thesis
      by (subst compare_row.simps, subst (2) compare_row.simps) simp
  next
    case True
    have here: "load src' (sp + i) = load src (sp + i)" "load dst' (dp + i) = load dst (dp + i)"
      using "1.prems" True by simp_all
    have rest: "\<And>a b. load src (sp + i) = Some a \<Longrightarrow> load dst (dp + i) = Some b \<Longrightarrow> \<not> a \<noteq> b \<Longrightarrow>
        compare_row src' dst' width sp dp (i + 1) = compare_row src dst width sp dp (i + 1)"
      using "1.IH" [OF True] "1.prems" by simp
    show ?thesis
      using True
      by (subst compare_row.simps, subst (2) compare_row.simps)
        (auto simp: here rest split: option.splits)
  qed
qed

lemma compare_row_defined:
  "(\<forall>k. i \<le> k \<and> k < width \<longrightarrow> load src (sp + k) \<noteq> None \<and> load dst (dp + k) \<noteq> None) \<Longrightarrow>
   compare_row src dst width sp dp i \<noteq> None"
proof (induction src dst width sp dp i rule: compare_row.induct)
  case (1 src dst width sp dp i)
  show ?case
  proof (cases "i < width")
    case False
    then show ?thesis by (subst compare_row.simps) simp
  next
    case True
    have here: "load src (sp + i) \<noteq> None" "load dst (dp + i) \<noteq> None"
      using "1.prems" True by simp_all
    have rest: "\<And>a b. load src (sp + i) = Some a \<Longrightarrow> load dst (dp + i) = Some b \<Longrightarrow> \<not> a \<noteq> b \<Longrightarrow>
        \<exists>y. compare_row src dst width sp dp (i + 1) = Some y"
      using "1.IH" [OF True] "1.prems" by simp
    show ?thesis
      using True here
      by (subst compare_row.simps) (auto simp: rest split: option.splits)
  qed
qed

lemma compare_rows_True_iff:
  "compare_rows src dst width height bw inc sp dp j = Some True \<longleftrightarrow>
     (\<forall>r k. j \<le> r \<and> r < height \<and> 0 \<le> k \<and> k < width \<longrightarrow>
        (\<exists>a. load src (sp + (r - j) * bw + k) = Some a \<and>
             load dst (dp + (r - j) * inc + k) = Some a))"
proof (induction src dst width height bw inc sp dp j rule: compare_rows.induct)
  case (1 src dst width height bw inc sp dp j)
  show ?case
  proof (cases "j < height")
    case False
    then show ?thesis by (subst compare_rows.simps) auto
  next
    case True
    note lt = this
    let ?row = "\<lambda>r. \<forall>k. 0 \<le> k \<and> k < width \<longrightarrow>
        (\<exists>a. load src (sp + (r - j) * bw + k) = Some a \<and>
             load dst (dp + (r - j) * inc + k) = Some a)"
    have row_j: "compare_row src dst width sp dp 0 = Some True \<longleftrightarrow> ?row j"
      by (simp add: compare_row_True_iff)
    have split: "(\<forall>r k. j \<le> r \<and> r < height \<and> 0 \<le> k \<and> k < width \<longrightarrow>
        (\<exists>a. load src (sp + (r - j) * bw + k) = Some a \<and>
             load dst (dp + (r - j) * inc + k) = Some a)) \<longleftrightarrow>
        (?row j \<and> (\<forall>r. j + 1 \<le> r \<and> r < height \<longrightarrow> ?row r))"
      using int_range_split [OF lt, of ?row] by blast
    show ?thesis
    proof (cases "compare_row src dst width sp dp 0 = Some True")
      case False
      then have "compare_rows src dst width height bw inc sp dp j \<noteq> Some True"
        using lt by (subst compare_rows.simps) (auto split: option.splits bool.splits)
      then show ?thesis using False row_j split by blast
    next
      case True
      have step: "compare_rows src dst width height bw inc sp dp j =
          compare_rows src dst width height bw inc (sp + bw) (dp + inc) (j + 1)"
        using lt True by (subst compare_rows.simps) simp
      have ih: "compare_rows src dst width height bw inc (sp + bw) (dp + inc) (j + 1) = Some True \<longleftrightarrow>
          (\<forall>r k. j + 1 \<le> r \<and> r < height \<and> 0 \<le> k \<and> k < width \<longrightarrow>
            (\<exists>a. load src (sp + bw + (r - (j + 1)) * bw + k) = Some a \<and>
                 load dst (dp + inc + (r - (j + 1)) * inc + k) = Some a))"
        using "1.IH" [OF lt True] by simp
      have shift: "\<And>r. sp + bw + (r - (j + 1)) * bw = sp + (r - j) * bw"
        "\<And>r. dp + inc + (r - (j + 1)) * inc = dp + (r - j) * inc"
        by (simp_all add: algebra_simps)
      show ?thesis
        unfolding step ih shift split using True row_j by blast
    qed
  qed
qed

lemma compare_rows_agree:
  "(\<forall>r k. j \<le> r \<and> r < height \<and> 0 \<le> k \<and> k < width \<longrightarrow>
       load src' (sp + (r - j) * bw + k) = load src (sp + (r - j) * bw + k) \<and>
       load dst' (dp + (r - j) * inc + k) = load dst (dp + (r - j) * inc + k)) \<Longrightarrow>
   compare_rows src' dst' width height bw inc sp dp j =
     compare_rows src dst width height bw inc sp dp j"
proof (induction src dst width height bw inc sp dp j rule: compare_rows.induct)
  case (1 src dst width height bw inc sp dp j)
  show ?case
  proof (cases "j < height")
    case False
    then show ?thesis
      by (subst compare_rows.simps, subst (2) compare_rows.simps) simp
  next
    case True
    have "\<forall>k. 0 \<le> k \<and> k < width \<longrightarrow>
        load src' (sp + k) = load src (sp + k) \<and> load dst' (dp + k) = load dst (dp + k)"
      using "1.prems" True by (metis add.right_neutral diff_self mult_zero_left order_refl)
    then have row: "compare_row src' dst' width sp dp 0 = compare_row src dst width sp dp 0"
      by (rule compare_row_agree)
    have shift: "\<And>r. sp + bw + (r - (j + 1)) * bw = sp + (r - j) * bw"
      "\<And>r. dp + inc + (r - (j + 1)) * inc = dp + (r - j) * inc"
      by (simp_all add: algebra_simps)
    have rest: "compare_row src dst width sp dp 0 = Some True \<Longrightarrow>
        compare_rows src' dst' width height bw inc (sp + bw) (dp + inc) (j + 1) =
          compare_rows src dst width height bw inc (sp + bw) (dp + inc) (j + 1)"
      using "1.IH" [OF True] "1.prems" by (simp add: shift)
    show ?thesis
      using True
      by (subst compare_rows.simps, subst (2) compare_rows.simps)
        (auto simp: row rest split: option.splits bool.splits)
  qed
qed

lemma compare_rows_defined:
  "(\<forall>r k. j \<le> r \<and> r < height \<and> 0 \<le> k \<and> k < width \<longrightarrow>
       load src (sp + (r - j) * bw + k) \<noteq> None \<and> load dst (dp + (r - j) * inc + k) \<noteq> None) \<Longrightarrow>
   compare_rows src dst width height bw inc sp dp j \<noteq> None"
proof (induction src dst width height bw inc sp dp j rule: compare_rows.induct)
  case (1 src dst width height bw inc sp dp j)
  show ?case
  proof (cases "j < height")
    case False
    then show ?thesis by (subst compare_rows.simps) simp
  next
    case True
    have "\<forall>k. 0 \<le> k \<and> k < width \<longrightarrow> load src (sp + k) \<noteq> None \<and> load dst (dp + k) \<noteq> None"
      using "1.prems" True by (metis add.right_neutral diff_self mult_zero_left order_refl)
    then have row: "\<exists>y. compare_row src dst width sp dp 0 = Some y"
      using compare_row_defined [of 0 width src sp dst dp] by simp
    have shift: "\<And>r. sp + bw + (r - (j + 1)) * bw = sp + (r - j) * bw"
      "\<And>r. dp + inc + (r - (j + 1)) * inc = dp + (r - j) * inc"
      by (simp_all add: algebra_simps)
    have rest: "compare_row src dst width sp dp 0 = Some True \<Longrightarrow>
        \<exists>y. compare_rows src dst width height bw inc (sp + bw) (dp + inc) (j + 1) = Some y"
      using "1.IH" [OF True] "1.prems" by (simp add: shift)
    show ?thesis
      using True row
      by (subst compare_rows.simps) (auto simp: rest split: option.splits bool.splits)
  qed
qed

lemma int_below_2: "0 \<le> (j::int) \<and> j < 2 \<Longrightarrow> j = 0 \<or> j = 1"
  by arith

text \<open>
  Claim C9. \<^verbatim>\<open>does_full_buffer_contain_correct_values\<close> returns true if and only if, for
  every column \<open>i\<close> below \<open>width\<close> and every row \<open>j\<close> below \<open>height\<close>, the entry
  \<open>j * bufferWidth + i\<close> of the source buffer equals the entry \<open>j * bufferWidth + i\<close> of the
  destination buffer when the origin is top-left, and the entry
  \<open>(bufferHeight - 1 - j) * bufferWidth + i\<close> when it is bottom-left (the mirror is taken at
  the height of the buffer); each of these entries has to lie inside its buffer. Entries
  in other places have no influence: two pairs of buffers that agree in the compared
  places give the same result. When all compared places lie inside the buffers, the
  function returns, and its result says whether the buffers agree in all of them.
\<close>

theorem does_full_buffer_contain_correct_values_iff:
  "(does_full_buffer_contain_correct_values srcBuffer dstBuffer width height bufferWidth
        bufferHeight origin = Some True \<longleftrightarrow>
      (\<forall>j i. 0 \<le> j \<and> j < height \<and> 0 \<le> i \<and> i < width \<longrightarrow>
         (\<exists>a. load srcBuffer (j * bufferWidth + i) = Some a \<and>
              load dstBuffer
                ((if origin = kBottomLeft_GrSurfaceOrigin then bufferHeight - 1 - j else j) *
                   bufferWidth + i) = Some a))) \<and>
   ((\<forall>j i. 0 \<le> j \<and> j < height \<and> 0 \<le> i \<and> i < width \<longrightarrow>
        load src' (j * bufferWidth + i) = load srcBuffer (j * bufferWidth + i) \<and>
        load dst'
          ((if origin = kBottomLeft_GrSurfaceOrigin then bufferHeight - 1 - j else j) *
             bufferWidth + i) =
        load dstBuffer
          ((if origin = kBottomLeft_GrSurfaceOrigin then bufferHeight - 1 - j else j) *
             bufferWidth + i)) \<longrightarrow>
      does_full_buffer_contain_correct_values src' dst' width height bufferWidth
        bufferHeight origin =
      does_full_buffer_contain_correct_values srcBuffer dstBuffer width height bufferWidth
        bufferHeight origin) \<and>
   ((\<forall>j i. 0 \<le> j \<and> j < height \<and> 0 \<le> i \<and> i < width \<longrightarrow>
        load srcBuffer (j * bufferWidth + i) \<noteq> None \<and>
        load dstBuffer
          ((if origin = kBottomLeft_GrSurfaceOrigin then bufferHeight - 1 - j else j) *
             bufferWidth + i) \<noteq> None) \<longrightarrow>
      does_full_buffer_contain_correct_values srcBuffer dstBuffer width height bufferWidth
        bufferHeight origin =
      Some (\<forall>j i. 0 \<le> j \<and> j < height \<and> 0 \<le> i \<and> i < width \<longrightarrow>
        load srcBuffer (j * bufferWidth + i) =
        load dstBuffer
          ((if origin = kBottomLeft_GrSurfaceOrigin then bufferHeight - 1 - j else j) *
             bufferWidth + i)))"
proof -
  let ?inc = "if kBottomLeft_GrSurfaceOrigin = origin then - bufferWidth else bufferWidth"
  let ?dp = "if kBottomLeft_GrSurfaceOrigin = origin then 0 + bufferWidth * (bufferHeight - 1) else 0"
  have unfold: "\<And>s d. does_full_buffer_contain_correct_values s d width height bufferWidth
        bufferHeight origin = compare_rows s d width height bufferWidth ?inc 0 ?dp 0"
    by (simp add: does_full_buffer_contain_correct_values_def Let_def)
  have idx: "\<And>j i. ?dp + (j - 0) * ?inc + i =
      (if origin = kBottomLeft_GrSurfaceOrigin then bufferHeight - 1 - j else j) * bufferWidth + i"
    by (auto simp: algebra_simps)
  have sidx: "\<And>j i. 0 + (j - 0) * bufferWidth + i = j * bufferWidth + i"
    by simp
  let ?di = "\<lambda>j i. (if origin = kBottomLeft_GrSurfaceOrigin then bufferHeight - 1 - j else j) *
      bufferWidth + i"
  let ?f = "compare_rows srcBuffer dstBuffer width height bufferWidth ?inc 0 ?dp 0"
  have iff: "?f = Some True \<longleftrightarrow>
      (\<forall>j i. 0 \<le> j \<and> j < height \<and> 0 \<le> i \<and> i < width \<longrightarrow>
         (\<exists>a. load srcBuffer (j * bufferWidth + i) = Some a \<and> load dstBuffer (?di j i) = Some a))"
    using compare_rows_True_iff [of srcBuffer dstBuffer width height bufferWidth ?inc 0 ?dp 0]
    unfolding idx sidx .
  have agree: "(\<forall>j i. 0 \<le> j \<and> j < height \<and> 0 \<le> i \<and> i < width \<longrightarrow>
        load src' (j * bufferWidth + i) = load srcBuffer (j * bufferWidth + i) \<and>
        load dst' (?di j i) = load dstBuffer (?di j i)) \<Longrightarrow>
      compare_rows src' dst' width height bufferWidth ?inc 0 ?dp 0 = ?f"
    using compare_rows_agree [of 0 height width src' 0 bufferWidth srcBuffer dst' ?dp ?inc dstBuffer]
    unfolding idx sidx .
  have defined: "?f = Some (\<forall>j i. 0 \<le> j \<and> j < height \<and> 0 \<le> i \<and> i < width \<longrightarrow>
        load srcBuffer (j * bufferWidth + i) = load dstBuffer (?di j i))"
    if d: "\<forall>j i. 0 \<le> j \<and> j < height \<and> 0 \<le> i \<and> i < width \<longrightarrow>
        load srcBuffer (j * bufferWidth + i) \<noteq> None \<and> load dstBuffer (?di j i) \<noteq> None"
  proof -
    have "?f \<noteq> None"
      using compare_rows_defined [of 0 height width srcBuffer 0 bufferWidth dstBuffer ?dp ?inc] d
      unfolding idx sidx .
    then obtain b where b: "?f = Some b" by blast
    have "b \<longleftrightarrow> (\<forall>j i. 0 \<le> j \<and> j < height \<and> 0 \<le> i \<and> i < width \<longrightarrow>
        load srcBuffer (j * bufferWidth + i) = load dstBuffer (?di j i))"
    proof
      assume b
      then have "?f = Some True" using b by simp
      then show "\<forall>j i. 0 \<le> j \<and> j < height \<and> 0 \<le> i \<and> i < width \<longrightarrow>
        load srcBuffer (j * bufferWidth + i) = load dstBuffer (?di j i)"
        unfolding iff by metis
    next
      assume eq: "\<forall>j i. 0 \<le> j \<and> j < height \<and> 0 \<le> i \<and> i < width \<longrightarrow>
        load srcBuffer (j * bufferWidth + i) = load dstBuffer (?di j i)"
      have "\<forall>j i. 0 \<le> j \<and> j < height \<and> 0 \<le> i \<and> i < width \<longrightarrow>
         (\<exists>a. load srcBuffer (j * bufferWidth + i) = Some a \<and> load dstBuffer (?di j i) = Some a)"
      proof (intro allI impI)
        fix j i assume r: "0 \<le> j \<and> j < height \<and> 0 \<le> i \<and> i < width"
        then obtain a where "load srcBuffer (j * bufferWidth + i) = Some a" using d by blast
        moreover have "load srcBuffer (j * bufferWidth + i) = load dstBuffer (?di j i)"
          using eq r by blast
        ultimately show "\<exists>a. load srcBuffer (j * bufferWidth + i) = Some a \<and>
            load dstBuffer (?di j i) = Some a" by simp
      qed
      then have "?f = Some True" unfolding iff .
      then show b using b by simp
    qed
    then show ?thesis using b by simp
  qed
  show ?thesis
    unfolding unfold using iff agree defined by blast
qed

theorem does_full_buffer_contain_correct_values_iff_witness:
  "does_full_buffer_contain_correct_values [1, 2, 9, 3, 4, 9] [3, 4, 7, 1, 2, 7] 2 2 3 2
      kBottomLeft_GrSurfaceOrigin = Some True \<and>
   (\<exists>a. load [1, 2, 9, 3, 4, 9 :: GrColor] (1 * 3 + 0) = Some a \<and>
        load [3, 4, 7, 1, 2, 7 :: GrColor] ((2 - 1 - 1) * 3 + 0) = Some a) \<and>
   does_full_buffer_contain_correct_values [1, 2, 0, 3, 4, 0] [3, 4, 5, 1, 2, 6] 2 2 3 2
      kBottomLeft_GrSurfaceOrigin = Some True \<and>
   does_full_buffer_contain_correct_values [1, 2, 9, 3, 4, 9] [1, 2, 9, 3, 4, 9] 2 2 3 2
      kBottomLeft_GrSurfaceOrigin = Some False \<and>
   does_full_buffer_contain_correct_values [1, 2, 9, 3, 4, 9] [1, 2, 7, 3, 4, 7] 2 2 3 2
      kTopLeft_GrSurfaceOrigin = Some True"
proof -
  let ?src = "[1, 2, 9, 3, 4, 9 :: GrColor]"
  let ?dst = "[3, 4, 7, 1, 2, 7 :: GrColor]"
  note inst = does_full_buffer_contain_correct_values_iff
      [of ?src ?dst 2 2 3 2 kBottomLeft_GrSurfaceOrigin "[1, 2, 0, 3, 4, 0]" "[3, 4, 5, 1, 2, 6]"]
  have run: "does_full_buffer_contain_correct_values ?src ?dst 2 2 3 2
      kBottomLeft_GrSurfaceOrigin = Some True"
    by (simp add: does_full_buffer_contain_correct_values_def compare_rows.simps
        compare_row.simps load_def)
  have px: "\<exists>a. load ?src (1 * 3 + 0) = Some a \<and> load ?dst ((2 - 1 - 1) * 3 + 0) = Some a"
    using inst [THEN conjunct1, THEN iffD1, OF run, rule_format, of 1 0] by simp
  have same: "\<forall>j i. 0 \<le> j \<and> j < 2 \<and> 0 \<le> i \<and> i < 2 \<longrightarrow>
        load [1, 2, 0, 3, 4, 0 :: GrColor] (j * 3 + i) = load ?src (j * 3 + i) \<and>
        load [3, 4, 5, 1, 2, 6 :: GrColor]
          ((if kBottomLeft_GrSurfaceOrigin = kBottomLeft_GrSurfaceOrigin then 2 - 1 - j else j) * 3 + i) =
        load ?dst
          ((if kBottomLeft_GrSurfaceOrigin = kBottomLeft_GrSurfaceOrigin then 2 - 1 - j else j) * 3 + i)"
  proof (intro allI impI)
    fix j i :: int
    assume "0 \<le> j \<and> j < 2 \<and> 0 \<le> i \<and> i < 2"
    then have "(j = 0 \<or> j = 1) \<and> (i = 0 \<or> i = 1)" by (simp add: int_below_2)
    then show "load [1, 2, 0, 3, 4, 0 :: GrColor] (j * 3 + i) = load ?src (j * 3 + i) \<and>
        load [3, 4, 5, 1, 2, 6 :: GrColor]
          ((if kBottomLeft_GrSurfaceOrigin = kBottomLeft_GrSurfaceOrigin then 2 - 1 - j else j) * 3 + i) =
        load ?dst
          ((if kBottomLeft_GrSurfaceOrigin = kBottomLeft_GrSurfaceOrigin then 2 - 1 - j else j) * 3 + i)"
      by (auto simp: load_def)
  qed
  have pad: "does_full_buffer_contain_correct_values [1, 2, 0, 3, 4, 0] [3, 4, 5, 1, 2, 6] 2 2 3 2
      kBottomLeft_GrSurfaceOrigin = Some True"
    using inst [THEN conjunct2, THEN conjunct1, THEN mp, OF same] run by simp
  have other: "does_full_buffer_contain_correct_values ?src ?src 2 2 3 2
      kBottomLeft_GrSurfaceOrigin = Some False"
    "does_full_buffer_contain_correct_values ?src [1, 2, 7, 3, 4, 7] 2 2 3 2
      kTopLeft_GrSurfaceOrigin = Some True"
    by (simp_all add: does_full_buffer_contain_correct_values_def compare_rows.simps
        compare_row.simps load_def)
  show ?thesis using run px pad other by simp
qed

subsection \<open>The gradient\<close>

lemma store_Some:
  "store xs k v = Some ys \<longleftrightarrow> 0 \<le> k \<and> k < int (length xs) \<and> ys = xs[nat k := v]"
  by (auto simp: store_def)

lemma word_ff_mask: "(0xff :: 32 word) = mask 8"
  by (simp add: mask_eq_exp_minus_1)

lemma unpack_or_ff:
  assumes "s \<le> 24"
  shows "drop_bit s (x OR push_bit s (0xff :: 32 word) OR y) AND 0xFF = 0xff"
  unfolding word_ff_mask
  using assms by (intro bit_eqI) (auto simp: bit_simps)

lemma GrColorUnpackB_Pack:
  "GrColor_SHIFT_B sh \<le> 24 \<Longrightarrow> GrColorUnpackB sh (GrColorPackRGBA sh r g 0xff a) = 0xff"
  unfolding GrColorUnpackB_def GrColorPackRGBA_def
  using unpack_or_ff [of "GrColor_SHIFT_B sh"
      "push_bit (GrColor_SHIFT_R sh) r OR push_bit (GrColor_SHIFT_G sh) g"
      "push_bit (GrColor_SHIFT_A sh) a"]
  by (simp add: ac_simps)

lemma GrColorUnpackA_Pack:
  "GrColor_SHIFT_A sh \<le> 24 \<Longrightarrow> GrColorUnpackA sh (GrColorPackRGBA sh r g b 0xff) = 0xff"
  unfolding GrColorUnpackA_def GrColorPackRGBA_def
  using unpack_or_ff [of "GrColor_SHIFT_A sh"
      "push_bit (GrColor_SHIFT_R sh) r OR push_bit (GrColor_SHIFT_G sh) g OR push_bit (GrColor_SHIFT_B sh) b"
      0]
  by (simp add: ac_simps)

lemma GrColorUnpack_le:
  "GrColorUnpackR sh c \<le> 255" "GrColorUnpackG sh c \<le> 255"
  "GrColorUnpackB sh c \<le> 255" "GrColorUnpackA sh c \<le> 255"
  unfolding GrColorUnpackR_def GrColorUnpackG_def GrColorUnpackB_def GrColorUnpackA_def
  by (simp_all add: word_and_le1)

text \<open>
  The source passes \<^verbatim>\<open>red - (red>>8)\<close> instead of \<^verbatim>\<open>red\<close>: a level of 256 becomes 255, and
  every level of at most 256 becomes a level of at most 255. With the shifts 0, 8, 16 and
  24 the red and the green channel of the packed colour are then these levels themselves.
\<close>

lemma level_le_255:
  fixes x :: "32 word"
  assumes "x \<le> 256"
  shows "x - drop_bit 8 x \<le> 255"
proof (cases "x = 256")
  case True
  then show ?thesis by simp
next
  case False
  then have lt: "x < 256" using assms by simp
  then have "unat x < 256" by (simp add: word_less_nat_alt)
  then have "drop_bit 8 x = 0"
    by (simp add: drop_bit_eq_div word_eq_iff_unsigned [where ?'a = nat] unat_div_distrib)
  then show ?thesis using lt by (simp add: word_less_nat_alt word_le_nat_alt)
qed

lemma high_bits_clear:
  fixes r :: "32 word"
  assumes "r \<le> 255" "8 \<le> n"
  shows "\<not> bit r n"
proof -
  have "unat r < 2 ^ 8" using assms(1) by (simp add: word_le_nat_alt)
  also have "(2::nat) ^ 8 \<le> 2 ^ n" using assms(2) by (intro power_increasing) simp_all
  finally have "unat r div 2 ^ n = 0" by simp
  then have "\<not> bit (unat r) n" by (simp add: bit_iff_odd)
  then show ?thesis by (simp add: bit_unsigned_iff)
qed

lemma unpack_red_level:
  fixes r g :: "32 word"
  assumes "r \<le> 255" "g \<le> 255"
  shows "GrColorUnpackR rgba_shifts (GrColorPackRGBA rgba_shifts r g 0xff 0xff) = r"
    "GrColorUnpackG rgba_shifts (GrColorPackRGBA rgba_shifts r g 0xff 0xff) = g"
proof -
  note hi = high_bits_clear [OF assms(1)] high_bits_clear [OF assms(2)]
  show "GrColorUnpackR rgba_shifts (GrColorPackRGBA rgba_shifts r g 0xff 0xff) = r"
    unfolding GrColorUnpackR_def GrColorPackRGBA_def rgba_shifts_def word_ff_mask
  proof (rule bit_eqI)
    fix n assume "possible_bit TYPE(32 word) n"
    show "bit (drop_bit (GrColor_SHIFT_R \<lparr>GrColor_SHIFT_R = 0, GrColor_SHIFT_G = 8,
              GrColor_SHIFT_B = 16, GrColor_SHIFT_A = 24\<rparr>)
            (push_bit (GrColor_SHIFT_R \<lparr>GrColor_SHIFT_R = 0, GrColor_SHIFT_G = 8,
                GrColor_SHIFT_B = 16, GrColor_SHIFT_A = 24\<rparr>) r OR
             push_bit (GrColor_SHIFT_G \<lparr>GrColor_SHIFT_R = 0, GrColor_SHIFT_G = 8,
                GrColor_SHIFT_B = 16, GrColor_SHIFT_A = 24\<rparr>) g OR
             push_bit (GrColor_SHIFT_B \<lparr>GrColor_SHIFT_R = 0, GrColor_SHIFT_G = 8,
                GrColor_SHIFT_B = 16, GrColor_SHIFT_A = 24\<rparr>) (mask 8) OR
             push_bit (GrColor_SHIFT_A \<lparr>GrColor_SHIFT_R = 0, GrColor_SHIFT_G = 8,
                GrColor_SHIFT_B = 16, GrColor_SHIFT_A = 24\<rparr>) (mask 8)) AND mask 8) n = bit r n"
      using hi(1) [of n] by (cases "n < 8") (auto simp: bit_simps)
  qed
  show "GrColorUnpackG rgba_shifts (GrColorPackRGBA rgba_shifts r g 0xff 0xff) = g"
    unfolding GrColorUnpackG_def GrColorPackRGBA_def rgba_shifts_def word_ff_mask
  proof (rule bit_eqI)
    fix n assume "possible_bit TYPE(32 word) n"
    show "bit (drop_bit (GrColor_SHIFT_G \<lparr>GrColor_SHIFT_R = 0, GrColor_SHIFT_G = 8,
              GrColor_SHIFT_B = 16, GrColor_SHIFT_A = 24\<rparr>)
            (push_bit (GrColor_SHIFT_R \<lparr>GrColor_SHIFT_R = 0, GrColor_SHIFT_G = 8,
                GrColor_SHIFT_B = 16, GrColor_SHIFT_A = 24\<rparr>) r OR
             push_bit (GrColor_SHIFT_G \<lparr>GrColor_SHIFT_R = 0, GrColor_SHIFT_G = 8,
                GrColor_SHIFT_B = 16, GrColor_SHIFT_A = 24\<rparr>) g OR
             push_bit (GrColor_SHIFT_B \<lparr>GrColor_SHIFT_R = 0, GrColor_SHIFT_G = 8,
                GrColor_SHIFT_B = 16, GrColor_SHIFT_A = 24\<rparr>) (mask 8) OR
             push_bit (GrColor_SHIFT_A \<lparr>GrColor_SHIFT_R = 0, GrColor_SHIFT_G = 8,
                GrColor_SHIFT_B = 16, GrColor_SHIFT_A = 24\<rparr>) (mask 8)) AND mask 8) n = bit g n"
      using hi(2) [of n] hi(1) [of "8 + n"] by (cases "n < 8") (auto simp: bit_simps)
  qed
qed

lemma fill_row_Some:
  "fill_row sc sh left top' width height bw j i data = Some data' \<Longrightarrow>
     left \<le> i \<Longrightarrow> top' \<le> j \<Longrightarrow> j < top' + height \<Longrightarrow>
     length data' = length data \<and>
     (\<forall>k. i \<le> k \<and> k < left + width \<longrightarrow> 0 \<le> k + j * bw \<and> k + j * bw < int (length data)) \<and>
     (\<forall>n<length data. (\<exists>k. i \<le> k \<and> k < left + width \<and> int n = k + j * bw) \<longrightarrow> (\<exists>k m. 0 \<le> k \<and> k < width \<and> 0 \<le> m \<and> m < height \<and>
           data' ! n = GrColorPackRGBA sh (sc k width - drop_bit 8 (sc k width))
             (sc m height - drop_bit 8 (sc m height)) 0xff 0xff)) \<and>
     (\<forall>n<length data. \<not> (\<exists>k. i \<le> k \<and> k < left + width \<and> int n = k + j * bw) \<longrightarrow>
        data' ! n = data ! n)"
proof (induction sc sh left top' width height bw j i data rule: fill_row.induct)
  case (1 sc sh left top' width height bw j i data)
  show ?case
  proof (cases "i < left + width")
    case False
    then have "data' = data"
      using "1.prems" by (subst (asm) fill_row.simps) simp
    then show ?thesis using False by auto
  next
    case True
    define v where "v = GrColorPackRGBA sh (sc (i - left) width - drop_bit 8 (sc (i - left) width))
        (sc (j - top') height - drop_bit 8 (sc (j - top') height)) 0xff 0xff"
    from "1.prems" True obtain data1 where
      st: "store data (i + j * bw) v = Some data1" and
      rec: "fill_row sc sh left top' width height bw j (i + 1) data1 = Some data'"
      by (subst (asm) fill_row.simps) (auto simp: Let_def v_def split: option.splits)
    from st have inb: "0 \<le> i + j * bw" "i + j * bw < int (length data)"
      and d1: "data1 = data[nat (i + j * bw) := v]"
      by (simp_all add: store_Some)
    have len1: "length data1 = length data" using d1 by simp
    have ih: "length data' = length data1 \<and>
     (\<forall>k. i + 1 \<le> k \<and> k < left + width \<longrightarrow> 0 \<le> k + j * bw \<and> k + j * bw < int (length data1)) \<and>
     (\<forall>n<length data1. (\<exists>k. i + 1 \<le> k \<and> k < left + width \<and> int n = k + j * bw) \<longrightarrow> (\<exists>k m. 0 \<le> k \<and> k < width \<and> 0 \<le> m \<and> m < height \<and>
           data' ! n = GrColorPackRGBA sh (sc k width - drop_bit 8 (sc k width))
             (sc m height - drop_bit 8 (sc m height)) 0xff 0xff)) \<and>
     (\<forall>n<length data1. \<not> (\<exists>k. i + 1 \<le> k \<and> k < left + width \<and> int n = k + j * bw) \<longrightarrow>
        data' ! n = data1 ! n)"
      using "1.IH" [OF True refl refl st [unfolded v_def] rec] "1.prems"(2-4) by simp
    have Qv: "\<exists>k m. 0 \<le> k \<and> k < width \<and> 0 \<le> m \<and> m < height \<and>
        v = GrColorPackRGBA sh (sc k width - drop_bit 8 (sc k width))
              (sc m height - drop_bit 8 (sc m height)) 0xff 0xff"
      unfolding v_def using True "1.prems"(2-4)
      by (intro exI [of _ "i - left"] exI [of _ "j - top'"]) simp
    have A: "length data' = length data" using ih len1 by simp
    have B: "\<forall>k. i \<le> k \<and> k < left + width \<longrightarrow> 0 \<le> k + j * bw \<and> k + j * bw < int (length data)"
    proof (intro allI impI)
      fix k assume k: "i \<le> k \<and> k < left + width"
      show "0 \<le> k + j * bw \<and> k + j * bw < int (length data)"
      proof (cases "k = i")
        case True then show ?thesis using inb by simp
      next
        case False then show ?thesis using ih k len1 by simp
      qed
    qed
    have C: "\<forall>n<length data. (\<exists>k. i \<le> k \<and> k < left + width \<and> int n = k + j * bw) \<longrightarrow> (\<exists>k m. 0 \<le> k \<and> k < width \<and> 0 \<le> m \<and> m < height \<and>
           data' ! n = GrColorPackRGBA sh (sc k width - drop_bit 8 (sc k width))
             (sc m height - drop_bit 8 (sc m height)) 0xff 0xff)"
    proof (intro allI impI)
      fix n assume n: "n < length data" and ex: "\<exists>k. i \<le> k \<and> k < left + width \<and> int n = k + j * bw"
      show "\<exists>k m. 0 \<le> k \<and> k < width \<and> 0 \<le> m \<and> m < height \<and>
           data' ! n = GrColorPackRGBA sh (sc k width - drop_bit 8 (sc k width))
             (sc m height - drop_bit 8 (sc m height)) 0xff 0xff"
      proof (cases "\<exists>k. i + 1 \<le> k \<and> k < left + width \<and> int n = k + j * bw")
        case True then show ?thesis using ih n len1 by simp
      next
        case False
        then have "int n = i + j * bw" using ex
          by (metis add.commute linorder_not_less order_le_less zless_imp_add1_zle)
        then have ni: "n = nat (i + j * bw)" by simp
        have "data' ! n = data1 ! n" using ih n len1 False by simp
        also have "\<dots> = v" using ni n d1 by simp
        finally show ?thesis using Qv by simp
      qed
    qed
    have D: "\<forall>n<length data. \<not> (\<exists>k. i \<le> k \<and> k < left + width \<and> int n = k + j * bw) \<longrightarrow>
        data' ! n = data ! n"
    proof (intro allI impI)
      fix n assume n: "n < length data" and nex: "\<not> (\<exists>k. i \<le> k \<and> k < left + width \<and> int n = k + j * bw)"
      have "\<not> (\<exists>k. i + 1 \<le> k \<and> k < left + width \<and> int n = k + j * bw)"
        using nex by auto
      then have "data' ! n = data1 ! n" using ih n len1 by simp
      moreover have "int n \<noteq> i + j * bw" using nex True by auto
      then have "n \<noteq> nat (i + j * bw)" using inb by auto
      then have "data1 ! n = data ! n" using d1 by simp
      ultimately show "data' ! n = data ! n" by simp
    qed
    show ?thesis using A B C D by blast
  qed
qed

lemma fill_row_total:
  "(\<forall>k. i \<le> k \<and> k < left + width \<longrightarrow> 0 \<le> k + j * bw \<and> k + j * bw < int (length data)) \<Longrightarrow>
   \<exists>data'. fill_row sc sh left top' width height bw j i data = Some data'"
proof (induction sc sh left top' width height bw j i data rule: fill_row.induct)
  case (1 sc sh left top' width height bw j i data)
  show ?case
  proof (cases "i < left + width")
    case False
    then show ?thesis by (subst fill_row.simps) simp
  next
    case True
    define v where "v = GrColorPackRGBA sh (sc (i - left) width - drop_bit 8 (sc (i - left) width))
        (sc (j - top') height - drop_bit 8 (sc (j - top') height)) 0xff 0xff"
    have inb: "0 \<le> i + j * bw \<and> i + j * bw < int (length data)"
      using "1.prems" True by simp
    then have st: "store data (i + j * bw) v = Some (data[nat (i + j * bw) := v])"
      by (simp add: store_Some)
    have "\<exists>data'. fill_row sc sh left top' width height bw j (i + 1) (data[nat (i + j * bw) := v]) =
        Some data'"
      using "1.IH" [OF True refl refl st [unfolded v_def]] "1.prems" unfolding v_def by simp
    then show ?thesis
      using True st unfolding v_def by (subst fill_row.simps) (simp add: Let_def)
  qed
qed

lemma fill_rows_Some:
  "fill_rows sc sh left top' width height bw j data = Some data' \<Longrightarrow> top' \<le> j \<Longrightarrow>
     length data' = length data \<and>
     (\<forall>r k. j \<le> r \<and> r < top' + height \<and> left \<le> k \<and> k < left + width \<longrightarrow>
        0 \<le> k + r * bw \<and> k + r * bw < int (length data)) \<and>
     (\<forall>n<length data.
        (\<exists>r k. j \<le> r \<and> r < top' + height \<and> left \<le> k \<and> k < left + width \<and> int n = k + r * bw) \<longrightarrow>
        (\<exists>k m. 0 \<le> k \<and> k < width \<and> 0 \<le> m \<and> m < height \<and>
           data' ! n = GrColorPackRGBA sh (sc k width - drop_bit 8 (sc k width))
             (sc m height - drop_bit 8 (sc m height)) 0xff 0xff)) \<and>
     (\<forall>n<length data.
        \<not> (\<exists>r k. j \<le> r \<and> r < top' + height \<and> left \<le> k \<and> k < left + width \<and> int n = k + r * bw) \<longrightarrow>
        data' ! n = data ! n)"
proof (induction sc sh left top' width height bw j data rule: fill_rows.induct)
  case (1 sc sh left top' width height bw j data)
  show ?case
  proof (cases "j < top' + height")
    case False
    then have "data' = data"
      using "1.prems" by (subst (asm) fill_rows.simps) simp
    then show ?thesis using False by auto
  next
    case True
    from "1.prems" True obtain data1 where
      row: "fill_row sc sh left top' width height bw j left data = Some data1" and
      rec: "fill_rows sc sh left top' width height bw (j + 1) data1 = Some data'"
      by (subst (asm) fill_rows.simps) (auto split: option.splits)
    note r1 = fill_row_Some [OF row order_refl "1.prems"(2) True]
    have len1: "length data1 = length data" using r1 by simp
    have "top' \<le> j + 1" using "1.prems"(2) by simp
    note ih = "1.IH" [OF True row rec this, unfolded len1]
    let ?here = "\<lambda>n. \<exists>k. left \<le> k \<and> k < left + width \<and> int n = k + j * bw"
    let ?later = "\<lambda>n. \<exists>r k. j + 1 \<le> r \<and> r < top' + height \<and> left \<le> k \<and> k < left + width \<and>
        int n = k + r * bw"
    let ?any = "\<lambda>n. \<exists>r k. j \<le> r \<and> r < top' + height \<and> left \<le> k \<and> k < left + width \<and>
        int n = k + r * bw"
    have any_iff: "?any n \<longleftrightarrow> ?here n \<or> ?later n" for n
    proof
      assume "?any n"
      then obtain r k where rk: "j \<le> r" "r < top' + height" "left \<le> k" "k < left + width"
          "int n = k + r * bw" by blast
      show "?here n \<or> ?later n"
      proof (cases "r = j")
        case True then show ?thesis using rk by blast
      next
        case False
        then have "j + 1 \<le> r" using rk by simp
        then show ?thesis using rk by blast
      qed
    next
      assume "?here n \<or> ?later n"
      then show "?any n"
      proof
        assume "?here n" then show ?thesis using True by blast
      next
        assume "?later n"
        then obtain r k where rk: "j + 1 \<le> r" "r < top' + height" "left \<le> k" "k < left + width"
          "int n = k + r * bw" by blast
        then have "j \<le> r" by simp
        then show ?thesis using rk by blast
      qed
    qed
    have A: "length data' = length data" using ih by simp
    have B: "\<forall>r k. j \<le> r \<and> r < top' + height \<and> left \<le> k \<and> k < left + width \<longrightarrow>
        0 \<le> k + r * bw \<and> k + r * bw < int (length data)"
    proof (intro allI impI)
      fix r k assume rk: "j \<le> r \<and> r < top' + height \<and> left \<le> k \<and> k < left + width"
      show "0 \<le> k + r * bw \<and> k + r * bw < int (length data)"
      proof (cases "r = j")
        case True then show ?thesis using r1 rk by simp
      next
        case False
        then have "j + 1 \<le> r" using rk by simp
        then show ?thesis using ih rk by simp
      qed
    qed
    have C: "\<forall>n<length data. ?any n \<longrightarrow> (\<exists>k m. 0 \<le> k \<and> k < width \<and> 0 \<le> m \<and> m < height \<and>
           data' ! n = GrColorPackRGBA sh (sc k width - drop_bit 8 (sc k width))
             (sc m height - drop_bit 8 (sc m height)) 0xff 0xff)"
    proof (intro allI impI)
      fix n assume n: "n < length data" and any: "?any n"
      show "\<exists>k m. 0 \<le> k \<and> k < width \<and> 0 \<le> m \<and> m < height \<and>
           data' ! n = GrColorPackRGBA sh (sc k width - drop_bit 8 (sc k width))
             (sc m height - drop_bit 8 (sc m height)) 0xff 0xff"
      proof (cases "?later n")
        case True then show ?thesis using ih n by blast
      next
        case False
        then have here: "?here n" using any any_iff by blast
        have "data' ! n = data1 ! n" using ih n False by blast
        moreover have "\<exists>k m. 0 \<le> k \<and> k < width \<and> 0 \<le> m \<and> m < height \<and>
           data1 ! n = GrColorPackRGBA sh (sc k width - drop_bit 8 (sc k width))
             (sc m height - drop_bit 8 (sc m height)) 0xff 0xff"
          using r1 n here by blast
        ultimately show ?thesis by simp
      qed
    qed
    have D: "\<forall>n<length data. \<not> ?any n \<longrightarrow> data' ! n = data ! n"
    proof (intro allI impI)
      fix n assume n: "n < length data" and no: "\<not> ?any n"
      have nh: "\<not> ?here n" and nl: "\<not> ?later n" using no any_iff by blast+
      have "data' ! n = data1 ! n" using ih n nl by blast
      moreover have "data1 ! n = data ! n" using r1 n nh by blast
      ultimately show "data' ! n = data ! n" by simp
    qed
    show ?thesis using A B C D by blast
  qed
qed

lemma fill_rows_total:
  "(\<forall>r k. j \<le> r \<and> r < top' + height \<and> left \<le> k \<and> k < left + width \<longrightarrow>
        0 \<le> k + r * bw \<and> k + r * bw < int (length data)) \<Longrightarrow> top' \<le> j \<Longrightarrow>
   \<exists>data'. fill_rows sc sh left top' width height bw j data = Some data'"
proof (induction sc sh left top' width height bw j data rule: fill_rows.induct)
  case (1 sc sh left top' width height bw j data)
  show ?case
  proof (cases "j < top' + height")
    case False
    then show ?thesis by (subst fill_rows.simps) simp
  next
    case True
    have "\<forall>k. left \<le> k \<and> k < left + width \<longrightarrow> 0 \<le> k + j * bw \<and> k + j * bw < int (length data)"
      using "1.prems" True by simp
    then obtain data1 where
      row: "fill_row sc sh left top' width height bw j left data = Some data1"
      using fill_row_total by blast
    have "top' \<le> j" "j < top' + height" using True "1.prems"(2) by simp_all
    then have len1: "length data1 = length data" using fill_row_Some [OF row order_refl] by simp
    have "\<exists>data'. fill_rows sc sh left top' width height bw (j + 1) data1 = Some data'"
      using "1.IH" [OF True row] "1.prems" unfolding len1 by simp
    then show ?thesis
      using True row by (subst fill_rows.simps) simp
  qed
qed

text \<open>
  The exact quotient \<open>256 * k div m\<close>, which the floating point expression of the source
  computes for the sizes of the test, is at most 256 for \<open>0 \<le> k < m\<close>.
\<close>

lemma exact_scale_le_256:
  assumes "0 \<le> k" "k < m"
  shows "exact_scale k m \<le> 256"
proof -
  have m: "0 < m" using assms by simp
  have "256 * k div m \<le> 256 * m div m"
    using assms by (intro zdiv_mono1) simp_all
  then have hi: "256 * k div m \<le> 256" using m by simp
  have lo: "0 \<le> 256 * k div m" using assms m by (simp add: pos_imp_zdiv_nonneg_iff)
  have "uint (word_of_int (256 * k div m) :: 32 word) = 256 * k div m"
    using lo hi by (simp add: uint_word_of_int take_bit_int_eq_self_iff)
  then have "uint (exact_scale k m) \<le> uint (256 :: 32 word)"
    using hi by (simp add: exact_scale_def)
  then show ?thesis by (simp only: word_le_def)
qed

lemma small_gradient:
  "fill_transfer_data exact_scale rgba_shifts 1 0 2 2 3 [0, 0, 0, 0, 0, 0] =
     Some [0, 0xFFFF0000, 0xFFFF0080, 0, 0xFFFF8000, 0xFFFF8080]"
  by (simp add: fill_transfer_data_def fill_rows.simps fill_row.simps store_def exact_scale_def
      rgba_shifts_def GrColorPackRGBA_def Let_def)

text \<open>
  Claim C10. A call of \<^verbatim>\<open>fill_transfer_data\<close> that returns leaves the array at its
  length and writes only the entries \<open>i + j * bufferWidth\<close> with
  \<open>left \<le> i < left + width\<close> and \<open>top \<le> j < top + height\<close>: every other entry keeps
  its value. Every entry it writes has 0xff in its blue and in its alpha channel
  (whenever that channel's shift leaves it inside the 32 bits), and red and green
  channels between 0 and 255; when the floating point expression yields a level of at
  most 256 for every \<open>0 \<le> k < m\<close>, the entry is the packing of a red and a green level of
  at most 255 with blue and alpha 0xff. The call returns exactly when all these entries
  lie inside the array. Nothing here depends on the sign of \<open>width\<close> and \<open>height\<close>.
\<close>

theorem fill_transfer_data_frame:
  "(fill_transfer_data sc sh left top' width height bufferWidth data = Some data' \<longrightarrow>
      length data' = length data \<and>
      (\<forall>n<length data.
         (\<exists>i j. left \<le> i \<and> i < left + width \<and> top' \<le> j \<and> j < top' + height \<and>
                int n = i + j * bufferWidth) \<longrightarrow>
         (GrColor_SHIFT_B sh \<le> 24 \<longrightarrow> GrColorUnpackB sh (data' ! n) = 0xff) \<and>
         (GrColor_SHIFT_A sh \<le> 24 \<longrightarrow> GrColorUnpackA sh (data' ! n) = 0xff) \<and>
         GrColorUnpackR sh (data' ! n) \<le> 255 \<and> GrColorUnpackG sh (data' ! n) \<le> 255 \<and>
         ((\<forall>k m. 0 \<le> k \<and> k < m \<longrightarrow> sc k m \<le> 256) \<longrightarrow>
            (\<exists>r g. r \<le> 255 \<and> g \<le> 255 \<and> data' ! n = GrColorPackRGBA sh r g 0xff 0xff))) \<and>
      (\<forall>n<length data.
         \<not> (\<exists>i j. left \<le> i \<and> i < left + width \<and> top' \<le> j \<and> j < top' + height \<and>
                int n = i + j * bufferWidth) \<longrightarrow>
         data' ! n = data ! n)) \<and>
   ((\<exists>d. fill_transfer_data sc sh left top' width height bufferWidth data = Some d) \<longleftrightarrow>
      (\<forall>i j. left \<le> i \<and> i < left + width \<and> top' \<le> j \<and> j < top' + height \<longrightarrow>
         0 \<le> i + j * bufferWidth \<and> i + j * bufferWidth < int (length data)))"
proof (intro conjI impI)
  assume run: "fill_transfer_data sc sh left top' width height bufferWidth data = Some data'"
  note r = fill_rows_Some [OF run [unfolded fill_transfer_data_def] order_refl]
  show "length data' = length data" using r by simp
  show "\<forall>n<length data.
         (\<exists>i j. left \<le> i \<and> i < left + width \<and> top' \<le> j \<and> j < top' + height \<and>
                int n = i + j * bufferWidth) \<longrightarrow>
         (GrColor_SHIFT_B sh \<le> 24 \<longrightarrow> GrColorUnpackB sh (data' ! n) = 0xff) \<and>
         (GrColor_SHIFT_A sh \<le> 24 \<longrightarrow> GrColorUnpackA sh (data' ! n) = 0xff) \<and>
         GrColorUnpackR sh (data' ! n) \<le> 255 \<and> GrColorUnpackG sh (data' ! n) \<le> 255 \<and>
         ((\<forall>k m. 0 \<le> k \<and> k < m \<longrightarrow> sc k m \<le> 256) \<longrightarrow>
            (\<exists>r g. r \<le> 255 \<and> g \<le> 255 \<and> data' ! n = GrColorPackRGBA sh r g 0xff 0xff))"
  proof (intro allI impI conjI)
    fix n assume n: "n < length data" and ex: "\<exists>i j. left \<le> i \<and> i < left + width \<and> top' \<le> j \<and>
        j < top' + height \<and> int n = i + j * bufferWidth"
    then have "\<exists>r k. top' \<le> r \<and> r < top' + height \<and> left \<le> k \<and> k < left + width \<and>
        int n = k + r * bufferWidth" by blast
    then obtain k m where km: "0 \<le> k" "k < width" "0 \<le> m" "m < height"
      and px: "data' ! n = GrColorPackRGBA sh (sc k width - drop_bit 8 (sc k width))
             (sc m height - drop_bit 8 (sc m height)) 0xff 0xff"
      using r n by blast
    show "GrColorUnpackB sh (data' ! n) = 0xff" if "GrColor_SHIFT_B sh \<le> 24"
      using that by (simp add: px GrColorUnpackB_Pack)
    show "GrColorUnpackA sh (data' ! n) = 0xff" if "GrColor_SHIFT_A sh \<le> 24"
      using that by (simp add: px GrColorUnpackA_Pack)
    show "GrColorUnpackR sh (data' ! n) \<le> 255" "GrColorUnpackG sh (data' ! n) \<le> 255"
      by (rule GrColorUnpack_le)+
    show "\<exists>r g. r \<le> 255 \<and> g \<le> 255 \<and> data' ! n = GrColorPackRGBA sh r g 0xff 0xff"
      if "\<forall>k m. 0 \<le> k \<and> k < m \<longrightarrow> sc k m \<le> 256"
    proof -
      have "sc k width \<le> 256" "sc m height \<le> 256" using that km by simp_all
      then have "sc k width - drop_bit 8 (sc k width) \<le> 255"
        "sc m height - drop_bit 8 (sc m height) \<le> 255"
        by (simp_all add: level_le_255)
      then show ?thesis using px by blast
    qed
  qed
  show "\<forall>n<length data.
         \<not> (\<exists>i j. left \<le> i \<and> i < left + width \<and> top' \<le> j \<and> j < top' + height \<and>
                int n = i + j * bufferWidth) \<longrightarrow>
         data' ! n = data ! n"
  proof (intro allI impI)
    fix n assume n: "n < length data" and no: "\<not> (\<exists>i j. left \<le> i \<and> i < left + width \<and> top' \<le> j \<and>
        j < top' + height \<and> int n = i + j * bufferWidth)"
    then have "\<not> (\<exists>r k. top' \<le> r \<and> r < top' + height \<and> left \<le> k \<and> k < left + width \<and>
        int n = k + r * bufferWidth)" by blast
    then show "data' ! n = data ! n" using r n by blast
  qed
next
  show "(\<exists>d. fill_transfer_data sc sh left top' width height bufferWidth data = Some d) \<longleftrightarrow>
      (\<forall>i j. left \<le> i \<and> i < left + width \<and> top' \<le> j \<and> j < top' + height \<longrightarrow>
         0 \<le> i + j * bufferWidth \<and> i + j * bufferWidth < int (length data))"
  proof
    assume "\<exists>d. fill_transfer_data sc sh left top' width height bufferWidth data = Some d"
    then obtain d where "fill_rows sc sh left top' width height bufferWidth top' data = Some d"
      unfolding fill_transfer_data_def by blast
    from fill_rows_Some [OF this order_refl]
    show "\<forall>i j. left \<le> i \<and> i < left + width \<and> top' \<le> j \<and> j < top' + height \<longrightarrow>
         0 \<le> i + j * bufferWidth \<and> i + j * bufferWidth < int (length data)" by blast
  next
    assume "\<forall>i j. left \<le> i \<and> i < left + width \<and> top' \<le> j \<and> j < top' + height \<longrightarrow>
         0 \<le> i + j * bufferWidth \<and> i + j * bufferWidth < int (length data)"
    then have "\<forall>r k. top' \<le> r \<and> r < top' + height \<and> left \<le> k \<and> k < left + width \<longrightarrow>
        0 \<le> k + r * bufferWidth \<and> k + r * bufferWidth < int (length data)" by blast
    from fill_rows_total [OF this order_refl]
    show "\<exists>d. fill_transfer_data sc sh left top' width height bufferWidth data = Some d"
      unfolding fill_transfer_data_def .
  qed
qed

theorem fill_transfer_data_frame_witness:
  "fill_transfer_data exact_scale rgba_shifts 1 0 2 2 3 [0, 0, 0, 0, 0, 0] =
     Some [0, 0xFFFF0000, 0xFFFF0080, 0, 0xFFFF8000, 0xFFFF8080] \<and>
   GrColor_SHIFT_B rgba_shifts \<le> 24 \<and> GrColor_SHIFT_A rgba_shifts \<le> 24 \<and>
   GrColorUnpackB rgba_shifts ([0, 0xFFFF0000, 0xFFFF0080, 0, 0xFFFF8000, 0xFFFF8080] ! 5) = 0xff \<and>
   GrColorUnpackA rgba_shifts ([0, 0xFFFF0000, 0xFFFF0080, 0, 0xFFFF8000, 0xFFFF8080] ! 5) = 0xff \<and>
   GrColorUnpackR rgba_shifts ([0, 0xFFFF0000, 0xFFFF0080, 0, 0xFFFF8000, 0xFFFF8080] ! 5) \<le> 255 \<and>
   GrColorUnpackG rgba_shifts ([0, 0xFFFF0000, 0xFFFF0080, 0, 0xFFFF8000, 0xFFFF8080] ! 5) \<le> 255 \<and>
   (\<exists>r g. r \<le> 255 \<and> g \<le> 255 \<and>
      [0, 0xFFFF0000, 0xFFFF0080, 0, 0xFFFF8000, 0xFFFF8080] ! 5 =
        GrColorPackRGBA rgba_shifts r g 0xff 0xff) \<and>
   [0, 0xFFFF0000, 0xFFFF0080, 0, 0xFFFF8000, 0xFFFF8080 :: GrColor] ! 3 = [0, 0, 0, 0, 0, 0] ! 3 \<and>
   (\<exists>d. fill_transfer_data exact_scale rgba_shifts 0 0 16 16 20 (replicate 320 0) = Some d)"
proof -
  let ?d = "[0, 0, 0, 0, 0, 0 :: GrColor]"
  let ?d' = "[0, 0xFFFF0000, 0xFFFF0080, 0, 0xFFFF8000, 0xFFFF8080 :: GrColor]"
  note inst = fill_transfer_data_frame [of exact_scale rgba_shifts 1 0 2 2 3 ?d ?d']
  note frame = inst [THEN conjunct1, THEN mp, OF small_gradient]
  have sh: "GrColor_SHIFT_B rgba_shifts \<le> 24" "GrColor_SHIFT_A rgba_shifts \<le> 24"
    by (simp_all add: rgba_shifts_def)
  have in5: "\<exists>i j. (1::int) \<le> i \<and> i < 1 + 2 \<and> (0::int) \<le> j \<and> j < 0 + 2 \<and> int 5 = i + j * 3"
    by (intro exI [of _ 2] exI [of _ 1]) simp
  have out3: "\<not> (\<exists>i j. (1::int) \<le> i \<and> i < 1 + 2 \<and> (0::int) \<le> j \<and> j < 0 + 2 \<and> int 3 = i + j * 3)"
    by presburger
  have px5: "(GrColor_SHIFT_B rgba_shifts \<le> 24 \<longrightarrow> GrColorUnpackB rgba_shifts (?d' ! 5) = 0xff) \<and>
      (GrColor_SHIFT_A rgba_shifts \<le> 24 \<longrightarrow> GrColorUnpackA rgba_shifts (?d' ! 5) = 0xff) \<and>
      GrColorUnpackR rgba_shifts (?d' ! 5) \<le> 255 \<and> GrColorUnpackG rgba_shifts (?d' ! 5) \<le> 255 \<and>
      ((\<forall>k m. 0 \<le> k \<and> k < m \<longrightarrow> exact_scale k m \<le> 256) \<longrightarrow>
         (\<exists>r g. r \<le> 255 \<and> g \<le> 255 \<and> ?d' ! 5 = GrColorPackRGBA rgba_shifts r g 0xff 0xff))"
    using frame [THEN conjunct2, THEN conjunct1, THEN spec, of 5, THEN mp, THEN mp] in5 by simp
  have lv: "\<exists>r g. r \<le> 255 \<and> g \<le> 255 \<and> ?d' ! 5 = GrColorPackRGBA rgba_shifts r g 0xff 0xff"
    using px5 exact_scale_le_256 by blast
  have px3: "?d' ! 3 = ?d ! 3"
    using frame [THEN conjunct2, THEN conjunct2, rule_format, of 3] out3 by simp
  have inb: "\<forall>i j. (0::int) \<le> i \<and> i < 0 + 16 \<and> (0::int) \<le> j \<and> j < 0 + 16 \<longrightarrow>
      0 \<le> i + j * 20 \<and> i + j * 20 < int (length (replicate 320 (0::GrColor)))"
    by auto
  have big: "\<exists>d. fill_transfer_data exact_scale rgba_shifts 0 0 16 16 20 (replicate 320 0) = Some d"
    using fill_transfer_data_frame [of exact_scale rgba_shifts 0 0 16 16 20 "replicate 320 0",
        THEN conjunct2, THEN iffD2, OF inb] .
  show ?thesis
    using small_gradient sh px5 lv px3 big by blast
qed

section \<open>Properties of the transfer buffer protocol\<close>

subsection \<open>Copying rows between two lists\<close>

lemma read_span_Some:
  "read_span xs pos n = Some row \<longleftrightarrow> pos + n \<le> length xs \<and> row = take n (drop pos xs)"
  by (auto simp: read_span_def)

lemma read_span_nth:
  assumes "read_span xs pos n = Some row"
  shows "length row = n" and "\<And>c. c < n \<Longrightarrow> row ! c = xs ! (pos + c)"
  using assms by (auto simp: read_span_Some)

lemma write_span_Some:
  "write_span xs pos ys = Some zs \<longleftrightarrow>
     pos + length ys \<le> length xs \<and> zs = take pos xs @ ys @ drop (pos + length ys) xs"
  by (auto simp: write_span_def)

lemma write_span_length: "write_span xs pos ys = Some zs \<Longrightarrow> length zs = length xs"
  by (auto simp: write_span_Some)

lemma write_span_nth:
  assumes "write_span xs pos ys = Some zs" and "k < length xs"
  shows "zs ! k = (if pos \<le> k \<and> k < pos + length ys then ys ! (k - pos) else xs ! k)"
proof -
  from assms(1) have le: "pos + length ys \<le> length xs"
    and zs: "zs = take pos xs @ ys @ drop (pos + length ys) xs"
    by (simp_all add: write_span_Some)
  show ?thesis
  proof (cases "k < pos")
    case True
    then show ?thesis using le by (simp add: zs nth_append)
  next
    case False
    note ge = this
    show ?thesis
    proof (cases "k < pos + length ys")
      case True
      then have "k - pos < length ys" using ge by arith
      then show ?thesis using True ge le by (simp add: zs nth_append)
    next
      case False
      then have a: "k - pos - length ys + (pos + length ys) = k" "\<not> k - pos < length ys"
        using ge by arith+
      have "zs ! k = drop (pos + length ys) xs ! (k - pos - length ys)"
        using ge le a(2) by (simp add: zs nth_append)
      also have "\<dots> = xs ! k"
        using le assms(2) a(1) by (simp add: add.commute)
      finally show ?thesis using False by simp
    qed
  qed
qed

lemma copy_rows_length:
  "copy_rows sp dp n src js dst = Some dst' \<Longrightarrow> length dst' = length dst"
proof (induction js arbitrary: dst)
  case Nil
  then show ?case by simp
next
  case (Cons j js)
  then obtain row dst1 where "write_span dst (dp j) row = Some dst1"
    "copy_rows sp dp n src js dst1 = Some dst'"
    by (auto split: option.splits)
  then show ?case using Cons.IH write_span_length by fastforce
qed

lemma copy_rows_bounds:
  "copy_rows sp dp n src js dst = Some dst' \<Longrightarrow> j \<in> set js \<Longrightarrow>
     sp j + n \<le> length src \<and> dp j + n \<le> length dst"
proof (induction js arbitrary: dst)
  case Nil
  then show ?case by simp
next
  case (Cons i js)
  then obtain row dst1 where row: "read_span src (sp i) n = Some row"
    and b: "write_span dst (dp i) row = Some dst1"
    and rec: "copy_rows sp dp n src js dst1 = Some dst'"
    by (auto split: option.splits)
  have len: "length dst1 = length dst" using b by (rule write_span_length)
  show ?case
  proof (cases "j = i")
    case True
    then show ?thesis using row b by (auto simp: read_span_Some write_span_Some)
  next
    case False
    then have "j \<in> set js" using Cons.prems by simp
    then show ?thesis using Cons.IH [OF rec] len by simp
  qed
qed

lemma copy_rows_frame:
  "copy_rows sp dp n src js dst = Some dst' \<Longrightarrow> k < length dst \<Longrightarrow>
     (\<forall>j\<in>set js. \<not> (dp j \<le> k \<and> k < dp j + n)) \<Longrightarrow> dst' ! k = dst ! k"
proof (induction js arbitrary: dst)
  case Nil
  then show ?case by simp
next
  case (Cons i js)
  then obtain row dst1 where row: "read_span src (sp i) n = Some row"
    and b: "write_span dst (dp i) row = Some dst1"
    and rec: "copy_rows sp dp n src js dst1 = Some dst'"
    by (auto split: option.splits)
  have len: "length dst1 = length dst" using b by (rule write_span_length)
  have lrow: "length row = n" using row by (rule read_span_nth)
  have "dst' ! k = dst1 ! k"
    using Cons.IH [OF rec] Cons.prems len by simp
  also have "\<dots> = dst ! k"
    using write_span_nth [OF b Cons.prems(2)] Cons.prems(3) lrow by simp
  finally show ?case .
qed

lemma copy_rows_copied:
  "copy_rows sp dp n src js dst = Some dst' \<Longrightarrow> distinct js \<Longrightarrow>
     (\<forall>i\<in>set js. \<forall>j\<in>set js. i \<noteq> j \<longrightarrow> dp i + n \<le> dp j \<or> dp j + n \<le> dp i) \<Longrightarrow>
     j \<in> set js \<Longrightarrow> c < n \<Longrightarrow> dst' ! (dp j + c) = src ! (sp j + c)"
proof (induction js arbitrary: dst)
  case Nil
  then show ?case by simp
next
  case (Cons i js)
  then obtain row dst1 where row: "read_span src (sp i) n = Some row"
    and b: "write_span dst (dp i) row = Some dst1"
    and rec: "copy_rows sp dp n src js dst1 = Some dst'"
    by (auto split: option.splits)
  have len: "length dst1 = length dst" using b by (rule write_span_length)
  have lrow: "length row = n" using row by (rule read_span_nth)
  show ?case
  proof (cases "j = i")
    case True
    have inb: "dp i + n \<le> length dst" using b lrow by (simp add: write_span_Some)
    have notin: "i \<notin> set js" using Cons.prems(2) by simp
    have away: "\<forall>j\<in>set js. \<not> (dp j \<le> dp i + c \<and> dp i + c < dp j + n)"
    proof
      fix j' assume j': "j' \<in> set js"
      then have "j' \<noteq> i" using notin by blast
      then have "dp i + n \<le> dp j' \<or> dp j' + n \<le> dp i"
        using Cons.prems(3) j' by (metis list.set_intros(1) list.set_intros(2))
      then show "\<not> (dp j' \<le> dp i + c \<and> dp i + c < dp j' + n)"
        using \<open>c < n\<close> by arith
    qed
    have "dst' ! (dp i + c) = dst1 ! (dp i + c)"
      using copy_rows_frame [OF rec _ away] inb len \<open>c < n\<close> by simp
    also have "\<dots> = row ! c"
      using write_span_nth [OF b, of "dp i + c"] inb lrow \<open>c < n\<close> by simp
    also have "\<dots> = src ! (sp i + c)"
      using read_span_nth(2) [OF row \<open>c < n\<close>] .
    finally show ?thesis using True by simp
  next
    case False
    then have "j \<in> set js" using Cons.prems(4) by simp
    moreover have "distinct js" using Cons.prems(2) by simp
    moreover have "\<forall>i\<in>set js. \<forall>j\<in>set js. i \<noteq> j \<longrightarrow> dp i + n \<le> dp j \<or> dp j + n \<le> dp i"
      using Cons.prems(3) by simp
    ultimately show ?thesis using Cons.IH [OF rec] Cons.prems(5) by blast
  qed
qed

lemma copy_rows_total:
  "(\<forall>j\<in>set js. sp j + n \<le> length src \<and> dp j + n \<le> length dst) \<Longrightarrow>
     \<exists>dst'. copy_rows sp dp n src js dst = Some dst'"
proof (induction js arbitrary: dst)
  case Nil
  then show ?case by simp
next
  case (Cons i js)
  have s: "read_span src (sp i) n = Some (take n (drop (sp i) src))"
    using Cons.prems by (simp add: read_span_def)
  have "sp i + n \<le> length src" using Cons.prems by simp
  then have "n \<le> length src - sp i" by arith
  then have l: "length (take n (drop (sp i) src)) = n" by simp
  obtain dst1 where b: "write_span dst (dp i) (take n (drop (sp i) src)) = Some dst1"
    using Cons.prems l by (simp add: write_span_def)
  have "length dst1 = length dst" using b by (rule write_span_length)
  then have "\<exists>dst'. copy_rows sp dp n src js dst1 = Some dst'"
    using Cons.IH [of dst1] Cons.prems by simp
  then show ?case using s b by simp
qed

lemma read_span_agree:
  assumes "length src' = length src" and "\<forall>c<n. src' ! (pos + c) = src ! (pos + c)"
  shows "read_span src' pos n = read_span src pos n"
proof (cases "pos + n \<le> length src")
  case False
  then show ?thesis using assms(1) by (simp add: read_span_def)
next
  case True
  have "take n (drop pos src') = take n (drop pos src)"
    using True assms by (intro nth_equalityI) simp_all
  then show ?thesis using True assms(1) by (simp add: read_span_def)
qed

lemma copy_rows_agree:
  "length src' = length src \<Longrightarrow>
   (\<forall>j\<in>set js. \<forall>c<n. src' ! (sp j + c) = src ! (sp j + c)) \<Longrightarrow>
   copy_rows sp dp n src' js dst = copy_rows sp dp n src js dst"
proof (induction js arbitrary: dst)
  case Nil
  then show ?case by simp
next
  case (Cons i js)
  have "read_span src' (sp i) n = read_span src (sp i) n"
    using Cons.prems by (intro read_span_agree) simp_all
  then show ?case using Cons by (simp split: option.splits)
qed

subsection \<open>Positions of texels and of buffer rows\<close>

lemma bpp_4 [simp]: "GrColorTypeBytesPerPixel ct = 4"
  by (cases ct) simp_all

lemma texel_pos_in_span:
  fixes p i b r x w W :: nat
  assumes "b < 4" "i < W" "x + w \<le> W"
    and lo: "(r * W + x) * 4 \<le> (p * W + i) * 4 + b"
    and hi: "(p * W + i) * 4 + b < (r * W + x) * 4 + w * 4"
  shows "p = r \<and> x \<le> i \<and> i < x + w"
proof -
  have 1: "r * W + x \<le> p * W + i" using lo \<open>b < 4\<close> by arith
  have 2: "p * W + i < r * W + x + w" using hi by arith
  have "r * W < Suc p * W" using 1 \<open>i < W\<close> by simp
  then have "r < Suc p" using mult_less_cancel2 by blast
  then have rp: "r \<le> p" by simp
  have "p * W < Suc r * W" using 2 \<open>x + w \<le> W\<close> by simp
  then have "p < Suc r" using mult_less_cancel2 by blast
  then have pr: "p \<le> r" by simp
  have "p = r" using rp pr by simp
  then show ?thesis using 1 2 by simp
qed

lemma texture_rows_apart:
  fixes i j x w W y :: nat
  assumes "x + w \<le> W" "i \<noteq> j"
  shows "((y + i) * W + x) * 4 + w * 4 \<le> ((y + j) * W + x) * 4 \<or>
         ((y + j) * W + x) * 4 + w * 4 \<le> ((y + i) * W + x) * 4"
proof -
  have step: "((y + a) * W + x) * 4 + w * 4 \<le> ((y + b) * W + x) * 4" if "a < b" for a b :: nat
  proof -
    have "Suc (y + a) \<le> y + b" using that by simp
    then have "Suc (y + a) * W \<le> (y + b) * W" by (rule mult_le_mono1)
    then have "(y + a) * W + W \<le> (y + b) * W" by simp
    then have "(y + a) * W + x + w \<le> (y + b) * W + x" using \<open>x + w \<le> W\<close> by arith
    then show ?thesis by arith
  qed
  show ?thesis using step [of i j] step [of j i] \<open>i \<noteq> j\<close> by (cases "i < j") auto
qed

lemma buffer_rows_apart:
  fixes i j n rb :: nat
  assumes "n \<le> rb" "i \<noteq> j"
  shows "i * rb + n \<le> j * rb \<or> j * rb + n \<le> i * rb"
proof -
  have step: "a * rb + n \<le> b * rb" if "a < b" for a b :: nat
  proof -
    have "Suc a * rb \<le> b * rb" using that by (intro mult_le_mono1) simp
    then show ?thesis using \<open>n \<le> rb\<close> by simp
  qed
  show ?thesis using step [of i j] step [of j i] \<open>i \<noteq> j\<close> by (cases "i < j") auto
qed

lemma physical_row_less: "r < H \<Longrightarrow> physical_row origin H r < H"
  by (cases origin) (simp_all add: physical_row_def)

lemma texel_span_inside:
  fixes r x w W H :: nat
  assumes "x + w \<le> W" "r < H"
  shows "(r * W + x) * 4 + w * 4 \<le> W * H * 4"
proof -
  have "Suc r * W \<le> H * W" using \<open>r < H\<close> by (intro mult_le_mono1) simp
  then have "r * W + W \<le> W * H" by (simp add: mult.commute)
  then have "r * W + x + w \<le> W * H" using \<open>x + w \<le> W\<close> by arith
  then show ?thesis by arith
qed

lemma buffer_span_inside:
  fixes j h rb n off len :: nat
  assumes "h = 0 \<or> off + (h - 1) * rb + n \<le> len" "j < h"
  shows "off + j * rb + n \<le> len"
proof -
  have "j \<le> h - 1" using \<open>j < h\<close> by simp
  then have "j * rb \<le> (h - 1) * rb" by (rule mult_le_mono1)
  then show ?thesis using assms by arith
qed

lemma padding_outside_spans:
  fixes j c w rb h :: nat
  assumes "w * 4 \<le> c" "c < rb"
  shows "\<forall>j'<h. \<not> (j' * rb \<le> j * rb + c \<and> j * rb + c < j' * rb + w * 4)"
proof (intro allI impI notI)
  fix j' assume "j' < h" and in_span: "j' * rb \<le> j * rb + c \<and> j * rb + c < j' * rb + w * 4"
  have "w * 4 \<le> rb" using assms by simp
  show False
  proof (cases "j' = j")
    case True then show ?thesis using in_span assms by simp
  next
    case False
    from buffer_rows_apart [OF \<open>w * 4 \<le> rb\<close> False]
    have "j' * rb + w * 4 \<le> j * rb \<or> j * rb + rb \<le> j' * rb"
    proof
      assume "j' * rb + w * 4 \<le> j * rb" then show ?thesis by simp
    next
      assume a: "j * rb + w * 4 \<le> j' * rb"
      have "j < j'"
      proof (rule ccontr)
        assume "\<not> j < j'"
        then have "j' \<le> j" by simp
        then have "j' * rb \<le> j * rb" by (rule mult_le_mono1)
        then show False using a in_span assms by arith
      qed
      then have "Suc j * rb \<le> j' * rb" by (intro mult_le_mono1) simp
      then show ?thesis by simp
    qed
    then show ?thesis using in_span assms by arith
  qed
qed

subsection \<open>The two operations\<close>

lemma transferPixels_cases:
  "transferPixels caps tex x y w h ct buf off rb = (ok, tex') \<Longrightarrow>
     (\<not> ok \<and> tex' = tex) \<or>
     (ok \<and> transferSupported caps (texConfig tex) \<and> 0 \<le> x \<and> 0 \<le> y \<and> 0 \<le> w \<and> 0 \<le> h \<and>
        x + w \<le> int (texWidth tex) \<and> y + h \<le> int (texHeight tex) \<and>
        (\<exists>t. copy_rows (\<lambda>j. off + j * rb) (\<lambda>j. ((nat y + j) * texWidth tex + nat x) * 4)
                (nat w * 4) buf [0..<nat h] (texels tex) = Some t \<and>
             tex' = tex\<lparr>texels := t\<rparr>))"
  by (auto simp: transferPixels_def Let_def split: if_splits option.splits)

lemma readPixels_cases:
  "readPixels caps tex origin x y w h ct out rb = (ok, out') \<Longrightarrow>
     (\<not> ok \<and> out' = out) \<or>
     (ok \<and> readSupported caps (texConfig tex) \<and> 0 \<le> x \<and> 0 \<le> y \<and> 0 \<le> w \<and> 0 \<le> h \<and>
        x + w \<le> int (texWidth tex) \<and> y + h \<le> int (texHeight tex) \<and>
        copy_rows (\<lambda>j. (physical_row origin (texHeight tex) (nat y + j) * texWidth tex + nat x) * 4)
                (\<lambda>j. j * rb) (nat w * 4) (texels tex) [0..<nat h] out = Some out')"
  by (auto simp: readPixels_def Let_def split: if_splits option.splits)

lemma transferPixels_texels:
  fixes x y w h :: nat
  assumes ok: "transferPixels caps tex (int x) (int y) (int w) (int h) ct buf off rb = (True, tex')"
  shows "texWidth tex' = texWidth tex" "texHeight tex' = texHeight tex"
    "texConfig tex' = texConfig tex" "length (texels tex') = length (texels tex)"
    "h = 0 \<or> off + (h - 1) * rb + w * 4 \<le> length buf"
    "\<And>p i b. p < texHeight tex \<Longrightarrow> i < texWidth tex \<Longrightarrow> b < 4 \<Longrightarrow>
       (p * texWidth tex + i) * 4 + b < length (texels tex) \<Longrightarrow>
       texels tex' ! ((p * texWidth tex + i) * 4 + b) =
         (if y \<le> p \<and> p < y + h \<and> x \<le> i \<and> i < x + w
          then buf ! (off + (p - y) * rb + (i - x) * 4 + b)
          else texels tex ! ((p * texWidth tex + i) * 4 + b))"
proof -
  let ?W = "texWidth tex"
  let ?sp = "\<lambda>j. off + j * rb"
  let ?dp = "\<lambda>j. ((y + j) * ?W + x) * 4"
  from transferPixels_cases [OF ok] obtain t where
    xw: "x + w \<le> ?W" and yh: "y + h \<le> texHeight tex" and
    cp: "copy_rows ?sp ?dp (w * 4) buf [0..<h] (texels tex) = Some t" and
    tex': "tex' = tex\<lparr>texels := t\<rparr>"
    by auto
  show "texWidth tex' = texWidth tex" "texHeight tex' = texHeight tex"
    "texConfig tex' = texConfig tex"
    by (simp_all add: tex')
  show "length (texels tex') = length (texels tex)"
    using copy_rows_length [OF cp] by (simp add: tex')
  show "h = 0 \<or> off + (h - 1) * rb + w * 4 \<le> length buf"
  proof (cases "h = 0")
    case False
    then have "h - 1 \<in> set [0..<h]" by simp
    from copy_rows_bounds [OF cp this] show ?thesis by simp
  qed simp
  fix p i b
  assume p: "p < texHeight tex" and i: "i < ?W" and b: "b < 4"
    and k: "(p * ?W + i) * 4 + b < length (texels tex)"
  have apart: "\<forall>i\<in>set [0..<h]. \<forall>j\<in>set [0..<h]. i \<noteq> j \<longrightarrow>
      ?dp i + w * 4 \<le> ?dp j \<or> ?dp j + w * 4 \<le> ?dp i"
    using texture_rows_apart [OF xw] by blast
  show "texels tex' ! ((p * ?W + i) * 4 + b) =
         (if y \<le> p \<and> p < y + h \<and> x \<le> i \<and> i < x + w
          then buf ! (off + (p - y) * rb + (i - x) * 4 + b)
          else texels tex ! ((p * ?W + i) * 4 + b))"
  proof (cases "y \<le> p \<and> p < y + h \<and> x \<le> i \<and> i < x + w")
    case True
    then have j: "p - y \<in> set [0..<h]" and c: "(i - x) * 4 + b < w * 4"
      using b by auto
    have "y + (p - y) = p" "x + (i - x) = i" using True by simp_all
    then have "?dp (p - y) + ((i - x) * 4 + b) = (p * ?W + (x + (i - x))) * 4 + b"
      by (simp add: algebra_simps)
    then have pos: "?dp (p - y) + ((i - x) * 4 + b) = (p * ?W + i) * 4 + b"
      using \<open>x + (i - x) = i\<close> by simp
    have "t ! (?dp (p - y) + ((i - x) * 4 + b)) = buf ! (?sp (p - y) + ((i - x) * 4 + b))"
      using copy_rows_copied [OF cp _ apart j c] by simp
    then have "t ! ((p * ?W + i) * 4 + b) = buf ! (off + (p - y) * rb + (i - x) * 4 + b)"
      unfolding pos by (simp add: add.assoc)
    then have "texels tex' ! ((p * ?W + i) * 4 + b) = buf ! (off + (p - y) * rb + (i - x) * 4 + b)"
      by (simp add: tex')
    then show ?thesis unfolding if_P [OF True] .
  next
    case False
    have away: "\<forall>j\<in>set [0..<h]. \<not> (?dp j \<le> (p * ?W + i) * 4 + b \<and>
        (p * ?W + i) * 4 + b < ?dp j + w * 4)"
    proof (intro ballI notI)
      fix j assume j: "j \<in> set [0..<h]"
        and in_span: "?dp j \<le> (p * ?W + i) * 4 + b \<and> (p * ?W + i) * 4 + b < ?dp j + w * 4"
      from texel_pos_in_span [OF b i xw] in_span
      have "p = y + j \<and> x \<le> i \<and> i < x + w" by blast
      then show False using False j by simp
    qed
    have "t ! ((p * ?W + i) * 4 + b) = texels tex ! ((p * ?W + i) * 4 + b)"
      using copy_rows_frame [OF cp k away] .
    then have "texels tex' ! ((p * ?W + i) * 4 + b) = texels tex ! ((p * ?W + i) * 4 + b)"
      by (simp add: tex')
    then show ?thesis unfolding if_not_P [OF False] .
  qed
qed

lemma readPixels_out:
  fixes x y w h :: nat
  assumes ok: "readPixels caps tex origin (int x) (int y) (int w) (int h) ct out rb = (True, out')"
  shows "length out' = length out"
    "\<And>j c. w * 4 \<le> rb \<Longrightarrow> j < h \<Longrightarrow> c < w * 4 \<Longrightarrow>
       out' ! (j * rb + c) =
         texels tex ! ((physical_row origin (texHeight tex) (y + j) * texWidth tex + x) * 4 + c)"
    "\<And>k. k < length out \<Longrightarrow> \<forall>j<h. \<not> (j * rb \<le> k \<and> k < j * rb + w * 4) \<Longrightarrow> out' ! k = out ! k"
proof -
  let ?sp = "\<lambda>j. (physical_row origin (texHeight tex) (y + j) * texWidth tex + x) * 4"
  let ?dp = "\<lambda>j. j * rb"
  from readPixels_cases [OF ok] have
    cp: "copy_rows ?sp ?dp (w * 4) (texels tex) [0..<h] out = Some out'"
    by auto
  show "length out' = length out" using copy_rows_length [OF cp] .
  show "out' ! (j * rb + c) = texels tex ! (?sp j + c)"
    if "w * 4 \<le> rb" "j < h" "c < w * 4" for j c
  proof -
    have apart: "\<forall>i\<in>set [0..<h]. \<forall>j\<in>set [0..<h]. i \<noteq> j \<longrightarrow>
        ?dp i + w * 4 \<le> ?dp j \<or> ?dp j + w * 4 \<le> ?dp i"
      using buffer_rows_apart [OF that(1)] by blast
    have "j \<in> set [0..<h]" using that by simp
    from copy_rows_copied [OF cp _ apart this that(3)] show ?thesis by simp
  qed
  show "out' ! k = out ! k"
    if "k < length out" "\<forall>j<h. \<not> (j * rb \<le> k \<and> k < j * rb + w * 4)" for k
    using copy_rows_frame [OF cp that(1)] that(2) by simp
qed

lemma transferPixels_succeeds:
  fixes x y w h :: nat
  assumes "transferSupported caps (texConfig tex)" "wf_texture tex"
    "x + w \<le> texWidth tex" "y + h \<le> texHeight tex"
    "h = 0 \<or> off + (h - 1) * rb + w * 4 \<le> length buf"
  shows "\<exists>tex'. transferPixels caps tex (int x) (int y) (int w) (int h) ct buf off rb = (True, tex') \<and>
           wf_texture tex'"
proof -
  let ?sp = "\<lambda>j. off + j * rb"
  let ?dp = "\<lambda>j. ((y + j) * texWidth tex + x) * 4"
  have "\<forall>j\<in>set [0..<h]. ?sp j + w * 4 \<le> length buf \<and> ?dp j + w * 4 \<le> length (texels tex)"
  proof
    fix j assume "j \<in> set [0..<h]"
    then have j: "j < h" by simp
    then have "y + j < texHeight tex" using assms(4) by simp
    from texel_span_inside [OF assms(3) this] buffer_span_inside [OF assms(5) j]
    show "?sp j + w * 4 \<le> length buf \<and> ?dp j + w * 4 \<le> length (texels tex)"
      using assms(2) by (simp add: wf_texture_def)
  qed
  from copy_rows_total [OF this] obtain t where
    cp: "copy_rows ?sp ?dp (w * 4) buf [0..<h] (texels tex) = Some t" by blast
  have "transferPixels caps tex (int x) (int y) (int w) (int h) ct buf off rb =
      (True, tex\<lparr>texels := t\<rparr>)"
    using assms(1,3,4) cp by (simp add: transferPixels_def)
  moreover have "wf_texture (tex\<lparr>texels := t\<rparr>)"
    using copy_rows_length [OF cp] assms(2) by (simp add: wf_texture_def)
  ultimately show ?thesis by blast
qed

lemma readPixels_succeeds:
  fixes x y w h :: nat
  assumes "readSupported caps (texConfig tex)" "wf_texture tex"
    "x + w \<le> texWidth tex" "y + h \<le> texHeight tex"
    "h = 0 \<or> (h - 1) * rb + w * 4 \<le> length out"
  shows "\<exists>out'. readPixels caps tex origin (int x) (int y) (int w) (int h) ct out rb = (True, out')"
proof -
  let ?sp = "\<lambda>j. (physical_row origin (texHeight tex) (y + j) * texWidth tex + x) * 4"
  let ?dp = "\<lambda>j. j * rb"
  have "\<forall>j\<in>set [0..<h]. ?sp j + w * 4 \<le> length (texels tex) \<and> ?dp j + w * 4 \<le> length out"
  proof
    fix j assume "j \<in> set [0..<h]"
    then have j: "j < h" by simp
    then have "y + j < texHeight tex" using assms(4) by simp
    then have "physical_row origin (texHeight tex) (y + j) < texHeight tex"
      by (rule physical_row_less)
    from texel_span_inside [OF assms(3) this] buffer_span_inside [of h 0 rb "w * 4", OF _ j] assms(5)
    show "?sp j + w * 4 \<le> length (texels tex) \<and> ?dp j + w * 4 \<le> length out"
      using assms(2) by (simp add: wf_texture_def)
  qed
  from copy_rows_total [OF this] obtain out' where
    "copy_rows ?sp ?dp (w * 4) (texels tex) [0..<h] out = Some out'" by blast
  then have "readPixels caps tex origin (int x) (int y) (int w) (int h) ct out rb = (True, out')"
    using assms(1,3,4) by (simp add: readPixels_def)
  then show ?thesis by blast
qed

lemma full_read:
  assumes ok: "readPixels caps tex origin (int 0) (int 0) (int (texWidth tex)) (int (texHeight tex))
      ct out rb = (True, out')"
    and rb: "texWidth tex * 4 \<le> rb" and j: "j < texHeight tex" and i: "i < texWidth tex" and b: "b < 4"
  shows "out' ! (j * rb + i * 4 + b) =
     texels tex ! ((physical_row origin (texHeight tex) j * texWidth tex + i) * 4 + b)"
proof -
  have c: "i * 4 + b < texWidth tex * 4" using i b by arith
  have "out' ! (j * rb + (i * 4 + b)) =
      texels tex ! ((physical_row origin (texHeight tex) (0 + j) * texWidth tex + 0) * 4 + (i * 4 + b))"
    using readPixels_out(2) [OF ok rb j c] .
  then show ?thesis by (simp add: algebra_simps)
qed

lemma two_row_texture_simps:
  "readSupported all_caps (texConfig two_row_texture)"
  "transferSupported all_caps (texConfig two_row_texture)"
  "wf_texture two_row_texture" "texWidth two_row_texture = 1" "texHeight two_row_texture = 2"
  "texels two_row_texture = [0, 0, 255, 255, 0, 128, 255, 255]"
  by (simp_all add: two_row_texture_def all_caps_def wf_texture_def)

lemma blank_texture_simps:
  "transferSupported all_caps (texConfig (blank_texture w h))"
  "readSupported all_caps (texConfig (blank_texture w h))"
  "wf_texture (blank_texture w h)"
  "texWidth (blank_texture w h) = w" "texHeight (blank_texture w h) = h"
  "texels (blank_texture w h) = replicate (w * h * 4) 0"
  by (simp_all add: blank_texture_def all_caps_def wf_texture_def)

lemma three_row_texture_simps:
  "readSupported all_caps (texConfig three_row_texture)"
  "transferSupported all_caps (texConfig three_row_texture)"
  "wf_texture three_row_texture" "texWidth three_row_texture = 1" "texHeight three_row_texture = 3"
  "texels three_row_texture = [10, 11, 12, 13, 20, 21, 22, 23, 30, 31, 32, 33]"
  by (simp_all add: three_row_texture_def all_caps_def wf_texture_def)

text \<open>
  Claim C8. \<^verbatim>\<open>transferPixels\<close> returns false and leaves the texture as it was whenever the
  format of the texture does not accept a transfer from a mapped buffer, or the
  rectangle does not lie inside the texture. More generally every call that returns
  false leaves the texture as it was. The function is total: each call returns a flag
  and a texture, and there is no other outcome.
\<close>

theorem transferPixels_fails_cleanly:
  "(\<not> transferSupported caps (texConfig texture) \<or> x < 0 \<or> y < 0 \<or> width < 0 \<or> height < 0 \<or>
      int (texWidth texture) < x + width \<or> int (texHeight texture) < y + height \<longrightarrow>
      transferPixels caps texture x y width height colorFormat buffer bufferOffsetBytes rowBytes =
        (False, texture)) \<and>
   (\<not> fst (transferPixels caps texture x y width height colorFormat buffer bufferOffsetBytes
             rowBytes) \<longrightarrow>
      snd (transferPixels caps texture x y width height colorFormat buffer bufferOffsetBytes
             rowBytes) = texture)"
  by (auto simp: transferPixels_def Let_def split: option.splits)

theorem transferPixels_fails_cleanly_witness:
  "int (texHeight (blank_texture 1 2)) < 1 + 2 \<and>
   transferPixels all_caps (blank_texture 1 2) 0 1 1 2 kRGBA_8888
     [0, 0, 255, 255, 0, 128, 255, 255] 0 4 = (False, blank_texture 1 2) \<and>
   \<not> transferSupported all_caps (texConfig (blank_texture 1 2\<lparr>texConfig := kUnknown_GrPixelConfig\<rparr>)) \<and>
   transferPixels all_caps (blank_texture 1 2\<lparr>texConfig := kUnknown_GrPixelConfig\<rparr>) 0 0 1 2
     kRGBA_8888 [0, 0, 255, 255, 0, 128, 255, 255] 0 4 =
     (False, blank_texture 1 2\<lparr>texConfig := kUnknown_GrPixelConfig\<rparr>) \<and>
   \<not> fst (transferPixels all_caps (blank_texture 1 2) 0 0 1 2 kRGBA_8888
     [0, 0, 255, 255, 0, 128, 255] 0 4) \<and>
   snd (transferPixels all_caps (blank_texture 1 2) 0 0 1 2 kRGBA_8888
     [0, 0, 255, 255, 0, 128, 255] 0 4) = blank_texture 1 2"
proof -
  have h: "int (texHeight (blank_texture 1 2)) < 1 + 2"
    by (simp add: blank_texture_def)
  have u: "\<not> transferSupported all_caps (texConfig (blank_texture 1 2\<lparr>texConfig := kUnknown_GrPixelConfig\<rparr>))"
    by (simp add: all_caps_def)
  have short: "\<not> fst (transferPixels all_caps (blank_texture 1 2) 0 0 1 2 kRGBA_8888
     [0, 0, 255, 255, 0, 128, 255] 0 4)"
    by (simp add: transferPixels_def all_caps_def blank_texture_def read_span_def
        write_span_def upt_rec)
  show ?thesis
    using transferPixels_fails_cleanly [of all_caps "blank_texture 1 2" 0 1 1 2 kRGBA_8888
        "[0, 0, 255, 255, 0, 128, 255, 255]" 0 4]
      transferPixels_fails_cleanly [of all_caps
        "blank_texture 1 2\<lparr>texConfig := kUnknown_GrPixelConfig\<rparr>" 0 0 1 2 kRGBA_8888
        "[0, 0, 255, 255, 0, 128, 255, 255]" 0 4]
      transferPixels_fails_cleanly [of all_caps "blank_texture 1 2" 0 0 1 2 kRGBA_8888
        "[0, 0, 255, 255, 0, 128, 255]" 0 4]
      h u short
    by simp
qed

text \<open>
  Claim C4, as amended. A \<^verbatim>\<open>readPixels\<close> call whose rectangle lies inside the texture, with
  a row stride of at least the row width and an output buffer that is long enough,
  succeeds. Row \<open>j\<close> of its result is written at \<open>j * rowBytes\<close>, whatever the origin (the
  output is top-down), and holds the texels of logical row \<open>y + j\<close>, \<open>y\<close> being the top of
  the rectangle: for a bottom-up origin these come from physical row
  \<open>textureHeight - 1 - (y + j)\<close>, which is \<open>textureHeight - 1 - j\<close> when the read starts at
  row 0; for a top-down origin from physical row \<open>y + j\<close>, so that logical row 0 is
  physical row 0. Bytes outside the rows written keep their value.
\<close>

theorem readPixels_row_source:
  fixes x y w h :: nat
  assumes "readSupported caps (texConfig tex)" "wf_texture tex"
    "x + w \<le> texWidth tex" "y + h \<le> texHeight tex"
    "w * 4 \<le> rowBytes" "h = 0 \<or> (h - 1) * rowBytes + w * 4 \<le> length outBuffer"
  shows "\<exists>out'. readPixels caps tex origin (int x) (int y) (int w) (int h) ct outBuffer rowBytes =
             (True, out') \<and>
           length out' = length outBuffer \<and>
           (\<forall>j<h. \<forall>c<w * 4.
              out' ! (j * rowBytes + c) =
                texels tex !
                  (((if origin = kBottomLeft_GrSurfaceOrigin then texHeight tex - 1 - (y + j)
                     else y + j) * texWidth tex + x) * 4 + c)) \<and>
           (\<forall>k<length outBuffer. (\<forall>j<h. \<not> (j * rowBytes \<le> k \<and> k < j * rowBytes + w * 4)) \<longrightarrow>
              out' ! k = outBuffer ! k)"
proof -
  from readPixels_succeeds [OF assms(1-4,6)] obtain out' where
    ok: "readPixels caps tex origin (int x) (int y) (int w) (int h) ct outBuffer rowBytes =
      (True, out')" by blast
  have row: "physical_row origin (texHeight tex) r =
      (if origin = kBottomLeft_GrSurfaceOrigin then texHeight tex - 1 - r else r)" for r
    by (cases origin) (simp_all add: physical_row_def)
  show ?thesis
    using ok readPixels_out(1) [OF ok] readPixels_out(2) [OF ok assms(5)] readPixels_out(3) [OF ok]
    by (simp add: row)
qed

theorem readPixels_row_source_witness:
  "readSupported all_caps (texConfig two_row_texture) \<and> wf_texture two_row_texture \<and>
   0 + 1 \<le> texWidth two_row_texture \<and> 0 + 2 \<le> texHeight two_row_texture \<and>
   (\<exists>out'. readPixels all_caps two_row_texture kBottomLeft_GrSurfaceOrigin (int 0) (int 0) (int 1)
              (int 2) kRGBA_8888 (replicate 12 0xCD) 6 = (True, out') \<and>
           length out' = 12 \<and> out' ! 1 = 128 \<and> out' ! 7 = 0 \<and> out' ! 4 = 0xCD) \<and>
   (\<exists>out'. readPixels all_caps two_row_texture kTopLeft_GrSurfaceOrigin (int 0) (int 0) (int 1)
              (int 2) kRGBA_8888 (replicate 12 0xCD) 6 = (True, out') \<and>
           length out' = 12 \<and> out' ! 1 = 0 \<and> out' ! 7 = 128 \<and> out' ! 4 = 0xCD) \<and>
   readSupported all_caps (texConfig three_row_texture) \<and> wf_texture three_row_texture \<and>
   0 + 1 \<le> texWidth three_row_texture \<and> 1 + 2 \<le> texHeight three_row_texture \<and>
   (\<exists>out'. readPixels all_caps three_row_texture kBottomLeft_GrSurfaceOrigin (int 0) (int 1) (int 1)
              (int 2) kRGBA_8888 (replicate 8 0xCD) 4 = (True, out') \<and>
           length out' = 8 \<and> out' ! 0 = 20 \<and> out' ! 4 = 10) \<and>
   (\<exists>out'. readPixels all_caps three_row_texture kTopLeft_GrSurfaceOrigin (int 0) (int 1) (int 1)
              (int 2) kRGBA_8888 (replicate 8 0xCD) 4 = (True, out') \<and>
           length out' = 8 \<and> out' ! 0 = 20 \<and> out' ! 4 = 30)"
proof -
  have pad: "\<forall>j<2. \<not> (j * 6 \<le> (4::nat) \<and> (4::nat) < j * 6 + 1 * 4)"
    by (auto simp: less_2_cases_iff)
  have sz: "(2::nat) = 0 \<or> (2 - 1) * 6 + 1 * 4 \<le> length (replicate 12 (0xCD :: byte))"
    "(1::nat) * 4 \<le> 6" "(0::nat) + 1 \<le> texWidth two_row_texture"
    "(0::nat) + 2 \<le> texHeight two_row_texture"
    by (simp_all add: two_row_texture_simps)
  note inst = readPixels_row_source [OF two_row_texture_simps(1,3) sz(3,4,2,1), of _ kRGBA_8888]
  from inst [of kBottomLeft_GrSurfaceOrigin] obtain o1 where
    o1: "readPixels all_caps two_row_texture kBottomLeft_GrSurfaceOrigin (int 0) (int 0) (int 1)
              (int 2) kRGBA_8888 (replicate 12 0xCD) 6 = (True, o1)" "length o1 = 12"
      "\<forall>j<2. \<forall>c<1 * 4. o1 ! (j * 6 + c) = texels two_row_texture !
          (((if kBottomLeft_GrSurfaceOrigin = kBottomLeft_GrSurfaceOrigin
             then texHeight two_row_texture - 1 - (0 + j) else 0 + j) * texWidth two_row_texture + 0) * 4 + c)"
      "\<forall>k<length (replicate 12 (0xCD :: byte)). (\<forall>j<2. \<not> (j * 6 \<le> k \<and> k < j * 6 + 1 * 4)) \<longrightarrow>
          o1 ! k = replicate 12 (0xCD :: byte) ! k"
    by auto
  have b1: "o1 ! 1 = 128" using o1(3) [rule_format, of 0 1] by (simp add: two_row_texture_simps)
  have b7: "o1 ! 7 = 0" using o1(3) [rule_format, of 1 1] by (simp add: two_row_texture_simps)
  have b4: "o1 ! 4 = 0xCD" using o1(4) [rule_format, of 4] pad by simp
  from inst [of kTopLeft_GrSurfaceOrigin] obtain o2 where
    o2: "readPixels all_caps two_row_texture kTopLeft_GrSurfaceOrigin (int 0) (int 0) (int 1)
              (int 2) kRGBA_8888 (replicate 12 0xCD) 6 = (True, o2)" "length o2 = 12"
      "\<forall>j<2. \<forall>c<1 * 4. o2 ! (j * 6 + c) = texels two_row_texture !
          (((if kTopLeft_GrSurfaceOrigin = kBottomLeft_GrSurfaceOrigin
             then texHeight two_row_texture - 1 - (0 + j) else 0 + j) * texWidth two_row_texture + 0) * 4 + c)"
      "\<forall>k<length (replicate 12 (0xCD :: byte)). (\<forall>j<2. \<not> (j * 6 \<le> k \<and> k < j * 6 + 1 * 4)) \<longrightarrow>
          o2 ! k = replicate 12 (0xCD :: byte) ! k"
    by auto
  have c1: "o2 ! 1 = 0" using o2(3) [rule_format, of 0 1] by (simp add: two_row_texture_simps)
  have c7: "o2 ! 7 = 128" using o2(3) [rule_format, of 1 1] by (simp add: two_row_texture_simps)
  have c4: "o2 ! 4 = 0xCD" using o2(4) [rule_format, of 4] pad by simp
  have sz3: "(2::nat) = 0 \<or> (2 - 1) * 4 + 1 * 4 \<le> length (replicate 8 (0xCD :: byte))"
    "(1::nat) * 4 \<le> 4" "(0::nat) + 1 \<le> texWidth three_row_texture"
    "(1::nat) + 2 \<le> texHeight three_row_texture"
    by (simp_all add: three_row_texture_simps)
  note inst3 = readPixels_row_source [OF three_row_texture_simps(1,3) sz3(3,4,2,1), of _ kRGBA_8888]
  from inst3 [of kBottomLeft_GrSurfaceOrigin] obtain o3 where
    o3: "readPixels all_caps three_row_texture kBottomLeft_GrSurfaceOrigin (int 0) (int 1) (int 1)
              (int 2) kRGBA_8888 (replicate 8 0xCD) 4 = (True, o3)" "length o3 = 8"
      "\<forall>j<2. \<forall>c<1 * 4. o3 ! (j * 4 + c) = texels three_row_texture !
          (((if kBottomLeft_GrSurfaceOrigin = kBottomLeft_GrSurfaceOrigin
             then texHeight three_row_texture - 1 - (1 + j) else 1 + j) * texWidth three_row_texture + 0) * 4 + c)"
    by auto
  have d0: "o3 ! 0 = 20" using o3(3) [rule_format, of 0 0] by (simp add: three_row_texture_simps)
  have d4: "o3 ! 4 = 10" using o3(3) [rule_format, of 1 0] by (simp add: three_row_texture_simps)
  from inst3 [of kTopLeft_GrSurfaceOrigin] obtain o4 where
    o4: "readPixels all_caps three_row_texture kTopLeft_GrSurfaceOrigin (int 0) (int 1) (int 1)
              (int 2) kRGBA_8888 (replicate 8 0xCD) 4 = (True, o4)" "length o4 = 8"
      "\<forall>j<2. \<forall>c<1 * 4. o4 ! (j * 4 + c) = texels three_row_texture !
          (((if kTopLeft_GrSurfaceOrigin = kBottomLeft_GrSurfaceOrigin
             then texHeight three_row_texture - 1 - (1 + j) else 1 + j) * texWidth three_row_texture + 0) * 4 + c)"
    by auto
  have e0: "o4 ! 0 = 20" using o4(3) [rule_format, of 0 0] by (simp add: three_row_texture_simps)
  have e4: "o4 ! 4 = 30" using o4(3) [rule_format, of 1 0] by (simp add: three_row_texture_simps)
  show ?thesis
    using o1(1,2) b1 b7 b4 o2(1,2) c1 c7 c4 o3(1,2) d0 d4 o4(1,2) e0 e4
    by (simp add: two_row_texture_simps three_row_texture_simps)
qed

text \<open>
  The claim C4 as stated, physical row \<open>textureHeight - 1 - j\<close> for row \<open>j\<close> of the result of
  every call, fails for a read that does not start at row 0. The bottom-up read of the
  one pixel at \<open>(0, 1)\<close> of a texture of 1 by 3 succeeds; row 0 of its result holds the
  bytes of physical row \<open>3 - 1 - (1 + 0) = 1\<close>, and physical row \<open>3 - 1 - 0 = 2\<close> holds
  other bytes.
\<close>

theorem readPixels_offset_row_bottom_left:
  "texWidth three_row_texture = 1 \<and> texHeight three_row_texture = 3 \<and>
   readPixels all_caps three_row_texture kBottomLeft_GrSurfaceOrigin 0 1 1 1 kRGBA_8888
     [0xCD, 0xCD, 0xCD, 0xCD] 4 = (True, [20, 21, 22, 23]) \<and>
   read_span (texels three_row_texture) ((texHeight three_row_texture - 1 - 0) * 4) 4 =
     Some [30, 31, 32, 33] \<and>
   read_span (texels three_row_texture) ((texHeight three_row_texture - 1 - (1 + 0)) * 4) 4 =
     Some [20, 21, 22, 23] \<and>
   [20, 21, 22, 23] \<noteq> [30, 31, 32, 33 :: byte]"
proof (intro conjI)
  show "texWidth three_row_texture = 1" "texHeight three_row_texture = 3"
    by (simp_all add: three_row_texture_def)
  show "readPixels all_caps three_row_texture kBottomLeft_GrSurfaceOrigin 0 1 1 1 kRGBA_8888
     [0xCD, 0xCD, 0xCD, 0xCD] 4 = (True, [20, 21, 22, 23])"
    by (simp add: readPixels_def all_caps_def three_row_texture_def read_span_def write_span_def
        upt_rec physical_row_def)
  show "read_span (texels three_row_texture) ((texHeight three_row_texture - 1 - 0) * 4) 4 =
     Some [30, 31, 32, 33]"
    by (simp add: three_row_texture_def read_span_def)
  show "read_span (texels three_row_texture) ((texHeight three_row_texture - 1 - (1 + 0)) * 4) 4 =
     Some [20, 21, 22, 23]"
    by (simp add: three_row_texture_def read_span_def)
  show "[20, 21, 22, 23] \<noteq> [30, 31, 32, 33 :: byte]"
    by simp
qed

text \<open>
  Claim C6. The bytes of a row beyond its logical width do not matter. For
  \<^verbatim>\<open>transferPixels\<close>: two source buffers of the same length that agree on the \<open>width * 4\<close>
  bytes of each of the \<open>height\<close> rows give the same result, whatever they hold
  elsewhere. For \<^verbatim>\<open>readPixels\<close>: the output buffer keeps its length, every byte that is
  not among the \<open>width * 4\<close> bytes of one of the rows keeps its value, and in particular,
  when \<open>rowBytes\<close> exceeds \<open>width * 4\<close>, so does every byte at a position
  \<open>j * rowBytes + c\<close> with \<open>width * 4 \<le> c < rowBytes\<close>.
\<close>

theorem row_padding_untouched:
  fixes w h :: nat
  shows
  "(length buffer' = length buffer \<and>
      (\<forall>j<h. \<forall>c<w * 4. buffer' ! (off + j * rowBytes + c) = buffer ! (off + j * rowBytes + c)) \<longrightarrow>
      transferPixels caps tex x y (int w) (int h) ct buffer' off rowBytes =
        transferPixels caps tex x y (int w) (int h) ct buffer off rowBytes) \<and>
   (readPixels caps tex origin x y (int w) (int h) ct outBuffer rowBytes = (ok, out') \<longrightarrow>
      length out' = length outBuffer \<and>
      (\<forall>k<length outBuffer. (\<forall>j<h. \<not> (j * rowBytes \<le> k \<and> k < j * rowBytes + w * 4)) \<longrightarrow>
         out' ! k = outBuffer ! k) \<and>
      (w * 4 < rowBytes \<longrightarrow>
         (\<forall>j c. w * 4 \<le> c \<and> c < rowBytes \<and> j * rowBytes + c < length outBuffer \<longrightarrow>
            out' ! (j * rowBytes + c) = outBuffer ! (j * rowBytes + c))))"
proof (intro conjI impI)
  assume a: "length buffer' = length buffer \<and>
      (\<forall>j<h. \<forall>c<w * 4. buffer' ! (off + j * rowBytes + c) = buffer ! (off + j * rowBytes + c))"
  then have "copy_rows (\<lambda>j. off + j * rowBytes) dp (w * 4) buffer' [0..<h] dst =
      copy_rows (\<lambda>j. off + j * rowBytes) dp (w * 4) buffer [0..<h] dst" for dp dst
    by (intro copy_rows_agree) simp_all
  then show "transferPixels caps tex x y (int w) (int h) ct buffer' off rowBytes =
        transferPixels caps tex x y (int w) (int h) ct buffer off rowBytes"
    by (simp add: transferPixels_def)
next
  assume r: "readPixels caps tex origin x y (int w) (int h) ct outBuffer rowBytes = (ok, out')"
  have frame: "length out' = length outBuffer \<and>
      (\<forall>k<length outBuffer. (\<forall>j<h. \<not> (j * rowBytes \<le> k \<and> k < j * rowBytes + w * 4)) \<longrightarrow>
         out' ! k = outBuffer ! k)"
  proof (cases ok)
    case False
    then show ?thesis using readPixels_cases [OF r] by simp
  next
    case True
    then have cp: "copy_rows
        (\<lambda>j. (physical_row origin (texHeight tex) (nat y + j) * texWidth tex + nat x) * 4)
        (\<lambda>j. j * rowBytes) (w * 4) (texels tex) [0..<h] outBuffer = Some out'"
      using readPixels_cases [OF r] by simp
    show ?thesis
      using copy_rows_length [OF cp] copy_rows_frame [OF cp] by simp
  qed
  show "length out' = length outBuffer" using frame by simp
  show "\<forall>k<length outBuffer. (\<forall>j<h. \<not> (j * rowBytes \<le> k \<and> k < j * rowBytes + w * 4)) \<longrightarrow>
         out' ! k = outBuffer ! k" using frame by simp
  show "\<forall>j c. w * 4 \<le> c \<and> c < rowBytes \<and> j * rowBytes + c < length outBuffer \<longrightarrow>
            out' ! (j * rowBytes + c) = outBuffer ! (j * rowBytes + c)"
    using frame padding_outside_spans by blast
qed

theorem row_padding_untouched_witness:
  "length [0, 0, 255, 255, 7, 7, 0, 128, 255, 255, 7, 7 :: byte] =
     length [0, 0, 255, 255, 9, 9, 0, 128, 255, 255, 9, 9 :: byte] \<and>
   transferPixels all_caps (blank_texture 1 2) 0 0 (int 1) (int 2) kRGBA_8888
     [0, 0, 255, 255, 7, 7, 0, 128, 255, 255, 7, 7] 0 6 =
   transferPixels all_caps (blank_texture 1 2) 0 0 (int 1) (int 2) kRGBA_8888
     [0, 0, 255, 255, 9, 9, 0, 128, 255, 255, 9, 9] 0 6 \<and>
   transferPixels all_caps (blank_texture 1 2) 0 0 (int 1) (int 2) kRGBA_8888
     [0, 0, 255, 255, 9, 9, 0, 128, 255, 255, 9, 9] 0 6 = (True, two_row_texture) \<and>
   readPixels all_caps two_row_texture kBottomLeft_GrSurfaceOrigin 0 0 (int 1) (int 2) kRGBA_8888
     
     [0xCD, 0xCD, 0xCD, 0xCD, 0xCD, 0xCD, 0xCD, 0xCD, 0xCD, 0xCD, 0xCD, 0xCD] 6 =
     (True, [0, 128, 255, 255, 0xCD, 0xCD, 0, 0, 255, 255, 0xCD, 0xCD]) \<and>
   (1::nat) * 4 < 6 \<and>
   [0, 128, 255, 255, 0xCD, 0xCD, 0, 0, 255, 255, 0xCD, 0xCD :: byte] ! (1 * 6 + 5) =
     [0xCD, 0xCD, 0xCD, 0xCD, 0xCD, 0xCD, 0xCD, 0xCD, 0xCD, 0xCD, 0xCD, 0xCD :: byte] ! (1 * 6 + 5)"
proof -
  let ?b' = "[0, 0, 255, 255, 7, 7, 0, 128, 255, 255, 7, 7 :: byte]"
  let ?b = "[0, 0, 255, 255, 9, 9, 0, 128, 255, 255, 9, 9 :: byte]"
  let ?o = "[0, 128, 255, 255, 0xCD, 0xCD, 0, 0, 255, 255, 0xCD, 0xCD :: byte]"
  have agree: "length ?b' = length ?b \<and>
      (\<forall>j<2. \<forall>c<1 * 4. ?b' ! (0 + j * 6 + c) = ?b ! (0 + j * 6 + c))"
    by (auto simp: less_2_cases_iff less_Suc_eq numeral_eq_Suc)
  have rd: "readPixels all_caps two_row_texture kBottomLeft_GrSurfaceOrigin 0 0 (int 1) (int 2)
      kRGBA_8888 
     [0xCD, 0xCD, 0xCD, 0xCD, 0xCD, 0xCD, 0xCD, 0xCD, 0xCD, 0xCD, 0xCD, 0xCD] 6 = (True, ?o)"
    by (simp add: readPixels_def all_caps_def two_row_texture_def read_span_def write_span_def
        upt_rec physical_row_def)
  have tr: "transferPixels all_caps (blank_texture 1 2) 0 0 (int 1) (int 2) kRGBA_8888 ?b 0 6 =
      (True, two_row_texture)"
    by (simp add: transferPixels_def all_caps_def blank_texture_def two_row_texture_def
        read_span_def write_span_def upt_rec)
  note inst1 = row_padding_untouched [where buffer' = ?b' and buffer = ?b and h = 2 and w = 1
      and off = 0 and rowBytes = 6 and caps = all_caps and tex = "blank_texture 1 2" and x = 0
      and y = 0 and ct = kRGBA_8888]
  note inst2 = row_padding_untouched [where h = 2 and w = 1 and rowBytes = 6 and caps = all_caps
      and tex = two_row_texture and x = 0 and y = 0 and ct = kRGBA_8888
      and origin = kBottomLeft_GrSurfaceOrigin and outBuffer = "[0xCD, 0xCD, 0xCD, 0xCD, 0xCD, 0xCD, 0xCD, 0xCD, 0xCD, 0xCD, 0xCD, 0xCD]"
      and ok = True and out' = ?o]
  have same: "transferPixels all_caps (blank_texture 1 2) 0 0 (int 1) (int 2) kRGBA_8888 ?b' 0 6 =
      transferPixels all_caps (blank_texture 1 2) 0 0 (int 1) (int 2) kRGBA_8888 ?b 0 6"
    using inst1 [THEN conjunct1] agree by blast
  have pad: "?o ! (1 * 6 + 5) = [0xCD, 0xCD, 0xCD, 0xCD, 0xCD, 0xCD, 0xCD, 0xCD, 0xCD, 0xCD, 0xCD, 0xCD :: byte] ! (1 * 6 + 5)"
    using inst2 [THEN conjunct2, THEN mp, OF rd, THEN conjunct2, THEN conjunct2, THEN mp,
        rule_format, of 5 1] by simp
  show ?thesis using agree same tr rd pad by simp
qed

text \<open>
  Claim C5, as amended. A transfer into a sub-rectangle of a texture that holds pixel
  data, with a source range inside the buffer, succeeds and changes exactly the texels
  of the sub-rectangle: they hold the transferred bytes, and every other texel holds what
  it held before. A full read after the transfer differs from a full read before it
  exactly at the pixels whose physical row and column lie in the rectangle, where it
  returns the transferred bytes: for a top-down origin these are the pixels of the
  sub-rectangle, for a bottom-up origin the pixels of the mirrored rows
  \<open>textureHeight - 1 - j\<close>. In the scenario of the test the rectangle has offset (2, 10)
  and size 10 by 2, in a texture of 16 by 16.
\<close>

theorem partial_transfer_frame:
  fixes x y w h :: nat
  assumes "transferSupported caps (texConfig tex)" "readSupported caps (texConfig tex)"
    "wf_texture tex" "x + w \<le> texWidth tex" "y + h \<le> texHeight tex"
    "h = 0 \<or> off + (h - 1) * rowBytes + w * 4 \<le> length buffer"
    "texWidth tex * 4 \<le> outRowBytes"
    "texHeight tex = 0 \<or> (texHeight tex - 1) * outRowBytes + texWidth tex * 4 \<le> length outBuffer"
  shows "\<exists>tex' before after.
     transferPixels caps tex (int x) (int y) (int w) (int h) ct buffer off rowBytes = (True, tex') \<and>
     readPixels caps tex origin (int 0) (int 0) (int (texWidth tex)) (int (texHeight tex)) ct
       outBuffer outRowBytes = (True, before) \<and>
     readPixels caps tex' origin (int 0) (int 0) (int (texWidth tex)) (int (texHeight tex)) ct
       outBuffer outRowBytes = (True, after) \<and>
     (\<forall>p<texHeight tex. \<forall>i<texWidth tex. \<forall>b<4.
        texels tex' ! ((p * texWidth tex + i) * 4 + b) =
          (if y \<le> p \<and> p < y + h \<and> x \<le> i \<and> i < x + w
           then buffer ! (off + (p - y) * rowBytes + (i - x) * 4 + b)
           else texels tex ! ((p * texWidth tex + i) * 4 + b))) \<and>
     (\<forall>j<texHeight tex. \<forall>i<texWidth tex. \<forall>b<4.
        after ! (j * outRowBytes + i * 4 + b) =
          (if y \<le> physical_row origin (texHeight tex) j \<and>
              physical_row origin (texHeight tex) j < y + h \<and> x \<le> i \<and> i < x + w
           then buffer ! (off + (physical_row origin (texHeight tex) j - y) * rowBytes +
                  (i - x) * 4 + b)
           else before ! (j * outRowBytes + i * 4 + b)))"
proof -
  let ?W = "texWidth tex" and ?H = "texHeight tex"
  from transferPixels_succeeds [OF assms(1,3,4,5,6)] obtain tex' where
    tr: "transferPixels caps tex (int x) (int y) (int w) (int h) ct buffer off rowBytes = (True, tex')"
    and wf': "wf_texture tex'" by blast
  note eff = transferPixels_texels [OF tr]
  have full: "0 + ?W \<le> ?W" "0 + ?H \<le> ?H" by simp_all
  from readPixels_succeeds [OF assms(2,3) full assms(8)] obtain before where
    r0: "readPixels caps tex origin (int 0) (int 0) (int ?W) (int ?H) ct outBuffer outRowBytes =
      (True, before)" by blast
  have "readSupported caps (texConfig tex')" "0 + ?W \<le> texWidth tex'" "0 + ?H \<le> texHeight tex'"
    using assms(2) eff(1-3) by simp_all
  from readPixels_succeeds [OF this(1) wf' this(2,3), of outRowBytes outBuffer] assms(8) obtain after
    where r1: "readPixels caps tex' origin (int 0) (int 0) (int ?W) (int ?H) ct outBuffer outRowBytes =
      (True, after)" by blast
  have r1': "readPixels caps tex' origin (int 0) (int 0) (int (texWidth tex')) (int (texHeight tex'))
      ct outBuffer outRowBytes = (True, after)"
    using r1 eff(1,2) by simp
  have inside: "(p * ?W + i) * 4 + b < length (texels tex)" if "p < ?H" "i < ?W" "b < 4" for p i b
  proof -
    have "(p * ?W + 0) * 4 + ?W * 4 \<le> ?W * ?H * 4"
      by (rule texel_span_inside) (use that in simp_all)
    then show ?thesis using that assms(3) by (simp add: wf_texture_def)
  qed
  have texel: "texels tex' ! ((p * ?W + i) * 4 + b) =
          (if y \<le> p \<and> p < y + h \<and> x \<le> i \<and> i < x + w
           then buffer ! (off + (p - y) * rowBytes + (i - x) * 4 + b)
           else texels tex ! ((p * ?W + i) * 4 + b))" if "p < ?H" "i < ?W" "b < 4" for p i b
    using eff(6) [OF that inside [OF that]] .
  have rd: "after ! (j * outRowBytes + i * 4 + b) =
          (if y \<le> physical_row origin ?H j \<and> physical_row origin ?H j < y + h \<and> x \<le> i \<and> i < x + w
           then buffer ! (off + (physical_row origin ?H j - y) * rowBytes + (i - x) * 4 + b)
           else before ! (j * outRowBytes + i * 4 + b))" if "j < ?H" "i < ?W" "b < 4" for j i b
  proof -
    have p: "physical_row origin ?H j < ?H" using that(1) by (rule physical_row_less)
    have a: "after ! (j * outRowBytes + i * 4 + b) =
        texels tex' ! ((physical_row origin ?H j * ?W + i) * 4 + b)"
      using full_read [OF r1', of j i b] that assms(7) eff(1,2) by simp
    have b0: "before ! (j * outRowBytes + i * 4 + b) =
        texels tex ! ((physical_row origin ?H j * ?W + i) * 4 + b)"
      using full_read [OF r0 assms(7) that] .
    show ?thesis unfolding a b0 using texel [OF p that(2,3)] .
  qed
  show ?thesis using tr r0 r1 texel rd by blast
qed

theorem partial_transfer_frame_witness:
  "transferSupported all_caps (texConfig (blank_texture 16 16)) \<and>
   readSupported all_caps (texConfig (blank_texture 16 16)) \<and>
   wf_texture (blank_texture 16 16) \<and>
   (\<exists>tex' before after.
      transferPixels all_caps (blank_texture 16 16) (int 2) (int 10) (int 10) (int 2) kRGBA_8888
        (replicate 1280 1) 808 80 = (True, tex') \<and>
      readPixels all_caps (blank_texture 16 16) kTopLeft_GrSurfaceOrigin (int 0) (int 0) (int 16)
        (int 16) kRGBA_8888 (replicate 1280 0xCD) 80 = (True, before) \<and>
      readPixels all_caps tex' kTopLeft_GrSurfaceOrigin (int 0) (int 0) (int 16) (int 16) kRGBA_8888
        (replicate 1280 0xCD) 80 = (True, after) \<and>
      texels tex' ! ((10 * 16 + 2) * 4 + 0) = 1 \<and> texels tex' ! ((5 * 16 + 2) * 4 + 0) = 0 \<and>
      after ! (10 * 80 + 2 * 4 + 0) = 1 \<and> after ! (11 * 80 + 11 * 4 + 3) = 1 \<and>
      after ! (10 * 80 + 1 * 4 + 3) = before ! (10 * 80 + 1 * 4 + 3) \<and>
      after ! (9 * 80 + 2 * 4 + 0) = before ! (9 * 80 + 2 * 4 + 0) \<and>
      after ! (12 * 80 + 5 * 4 + 0) = before ! (12 * 80 + 5 * 4 + 0)) \<and>
   (\<exists>tex' before after.
      transferPixels all_caps (blank_texture 16 16) (int 2) (int 10) (int 10) (int 2) kRGBA_8888
        (replicate 1280 1) 808 80 = (True, tex') \<and>
      readPixels all_caps (blank_texture 16 16) kBottomLeft_GrSurfaceOrigin (int 0) (int 0) (int 16)
        (int 16) kRGBA_8888 (replicate 1280 0xCD) 80 = (True, before) \<and>
      readPixels all_caps tex' kBottomLeft_GrSurfaceOrigin (int 0) (int 0) (int 16) (int 16)
        kRGBA_8888 (replicate 1280 0xCD) 80 = (True, after) \<and>
      texels tex' ! ((10 * 16 + 2) * 4 + 0) = 1 \<and> texels tex' ! ((5 * 16 + 2) * 4 + 0) = 0 \<and>
      after ! (5 * 80 + 2 * 4 + 0) = 1 \<and> after ! (4 * 80 + 11 * 4 + 3) = 1 \<and>
      after ! (10 * 80 + 2 * 4 + 0) = before ! (10 * 80 + 2 * 4 + 0) \<and>
      after ! (11 * 80 + 11 * 4 + 3) = before ! (11 * 80 + 11 * 4 + 3) \<and>
      after ! (5 * 80 + 1 * 4 + 0) = before ! (5 * 80 + 1 * 4 + 0))"
proof -
  have sz: "(2::nat) + 10 \<le> texWidth (blank_texture 16 16)"
    "(10::nat) + 2 \<le> texHeight (blank_texture 16 16)"
    "(2::nat) = 0 \<or> 808 + (2 - 1) * 80 + 10 * 4 \<le> length (replicate 1280 (1::byte))"
    "texWidth (blank_texture 16 16) * 4 \<le> 80"
    "texHeight (blank_texture 16 16) = 0 \<or>
       (texHeight (blank_texture 16 16) - 1) * 80 + texWidth (blank_texture 16 16) * 4 \<le>
       length (replicate 1280 (0xCD::byte))"
    by (simp_all add: blank_texture_simps)
  note inst = partial_transfer_frame [OF blank_texture_simps(1,2,3) sz, of kRGBA_8888]
  from inst [of kTopLeft_GrSurfaceOrigin]
  obtain tex' before after where
    tr: "transferPixels all_caps (blank_texture 16 16) (int 2) (int 10) (int 10) (int 2) kRGBA_8888
        (replicate 1280 1) 808 80 = (True, tex')"
    and r0: "readPixels all_caps (blank_texture 16 16) kTopLeft_GrSurfaceOrigin (int 0) (int 0)
        (int 16) (int 16) kRGBA_8888 (replicate 1280 0xCD) 80 = (True, before)"
    and r1: "readPixels all_caps tex' kTopLeft_GrSurfaceOrigin (int 0) (int 0) (int 16) (int 16)
        kRGBA_8888 (replicate 1280 0xCD) 80 = (True, after)"
    and tx: "\<forall>p<16. \<forall>i<16. \<forall>b<4.
        texels tex' ! ((p * 16 + i) * 4 + b) =
          (if 10 \<le> p \<and> p < 10 + 2 \<and> 2 \<le> i \<and> i < 2 + 10
           then replicate 1280 (1::byte) ! (808 + (p - 10) * 80 + (i - 2) * 4 + b)
           else replicate (16 * 16 * 4) (0::byte) ! ((p * 16 + i) * 4 + b))"
    and rd: "\<forall>j<16. \<forall>i<16. \<forall>b<4.
        after ! (j * 80 + i * 4 + b) =
          (if 10 \<le> physical_row kTopLeft_GrSurfaceOrigin 16 j \<and>
              physical_row kTopLeft_GrSurfaceOrigin 16 j < 10 + 2 \<and> 2 \<le> i \<and> i < 2 + 10
           then replicate 1280 (1::byte) ! (808 + (physical_row kTopLeft_GrSurfaceOrigin 16 j - 10) * 80 +
                  (i - 2) * 4 + b)
           else before ! (j * 80 + i * 4 + b))"
    unfolding blank_texture_simps by blast
  have tp: "texels tex' ! ((10 * 16 + 2) * 4 + 0) = 1" "texels tex' ! ((5 * 16 + 2) * 4 + 0) = 0"
    using tx [rule_format, of 10 2 0] tx [rule_format, of 5 2 0] by simp_all
  have px: "after ! (10 * 80 + 2 * 4 + 0) = 1" "after ! (11 * 80 + 11 * 4 + 3) = 1"
    "after ! (10 * 80 + 1 * 4 + 3) = before ! (10 * 80 + 1 * 4 + 3)"
    "after ! (9 * 80 + 2 * 4 + 0) = before ! (9 * 80 + 2 * 4 + 0)"
    "after ! (12 * 80 + 5 * 4 + 0) = before ! (12 * 80 + 5 * 4 + 0)"
    using rd [rule_format, of 10 2 0] rd [rule_format, of 11 11 3] rd [rule_format, of 10 1 3]
      rd [rule_format, of 9 2 0] rd [rule_format, of 12 5 0]
    by (simp_all add: physical_row_def)
  from inst [of kBottomLeft_GrSurfaceOrigin]
  obtain tex2 before2 after2 where
    tr2: "transferPixels all_caps (blank_texture 16 16) (int 2) (int 10) (int 10) (int 2) kRGBA_8888
        (replicate 1280 1) 808 80 = (True, tex2)"
    and r02: "readPixels all_caps (blank_texture 16 16) kBottomLeft_GrSurfaceOrigin (int 0) (int 0)
        (int 16) (int 16) kRGBA_8888 (replicate 1280 0xCD) 80 = (True, before2)"
    and r12: "readPixels all_caps tex2 kBottomLeft_GrSurfaceOrigin (int 0) (int 0) (int 16) (int 16)
        kRGBA_8888 (replicate 1280 0xCD) 80 = (True, after2)"
    and rd2: "\<forall>j<16. \<forall>i<16. \<forall>b<4.
        after2 ! (j * 80 + i * 4 + b) =
          (if 10 \<le> physical_row kBottomLeft_GrSurfaceOrigin 16 j \<and>
              physical_row kBottomLeft_GrSurfaceOrigin 16 j < 10 + 2 \<and> 2 \<le> i \<and> i < 2 + 10
           then replicate 1280 (1::byte) ! (808 + (physical_row kBottomLeft_GrSurfaceOrigin 16 j - 10) * 80 +
                  (i - 2) * 4 + b)
           else before2 ! (j * 80 + i * 4 + b))"
    unfolding blank_texture_simps by blast
  have same: "tex2 = tex'" using tr tr2 by simp
  have px2: "after2 ! (5 * 80 + 2 * 4 + 0) = 1" "after2 ! (4 * 80 + 11 * 4 + 3) = 1"
    "after2 ! (10 * 80 + 2 * 4 + 0) = before2 ! (10 * 80 + 2 * 4 + 0)"
    "after2 ! (11 * 80 + 11 * 4 + 3) = before2 ! (11 * 80 + 11 * 4 + 3)"
    "after2 ! (5 * 80 + 1 * 4 + 0) = before2 ! (5 * 80 + 1 * 4 + 0)"
    using rd2 [rule_format, of 5 2 0] rd2 [rule_format, of 4 11 3] rd2 [rule_format, of 10 2 0]
      rd2 [rule_format, of 11 11 3] rd2 [rule_format, of 5 1 0]
    by (simp_all add: physical_row_def)
  have top: "\<exists>tex' before after.
      transferPixels all_caps (blank_texture 16 16) (int 2) (int 10) (int 10) (int 2) kRGBA_8888
        (replicate 1280 1) 808 80 = (True, tex') \<and>
      readPixels all_caps (blank_texture 16 16) kTopLeft_GrSurfaceOrigin (int 0) (int 0) (int 16)
        (int 16) kRGBA_8888 (replicate 1280 0xCD) 80 = (True, before) \<and>
      readPixels all_caps tex' kTopLeft_GrSurfaceOrigin (int 0) (int 0) (int 16) (int 16) kRGBA_8888
        (replicate 1280 0xCD) 80 = (True, after) \<and>
      texels tex' ! ((10 * 16 + 2) * 4 + 0) = 1 \<and> texels tex' ! ((5 * 16 + 2) * 4 + 0) = 0 \<and>
      after ! (10 * 80 + 2 * 4 + 0) = 1 \<and> after ! (11 * 80 + 11 * 4 + 3) = 1 \<and>
      after ! (10 * 80 + 1 * 4 + 3) = before ! (10 * 80 + 1 * 4 + 3) \<and>
      after ! (9 * 80 + 2 * 4 + 0) = before ! (9 * 80 + 2 * 4 + 0) \<and>
      after ! (12 * 80 + 5 * 4 + 0) = before ! (12 * 80 + 5 * 4 + 0)"
    using tr r0 r1 tp px by blast
  have bottom: "\<exists>tex' before after.
      transferPixels all_caps (blank_texture 16 16) (int 2) (int 10) (int 10) (int 2) kRGBA_8888
        (replicate 1280 1) 808 80 = (True, tex') \<and>
      readPixels all_caps (blank_texture 16 16) kBottomLeft_GrSurfaceOrigin (int 0) (int 0) (int 16)
        (int 16) kRGBA_8888 (replicate 1280 0xCD) 80 = (True, before) \<and>
      readPixels all_caps tex' kBottomLeft_GrSurfaceOrigin (int 0) (int 0) (int 16) (int 16)
        kRGBA_8888 (replicate 1280 0xCD) 80 = (True, after) \<and>
      texels tex' ! ((10 * 16 + 2) * 4 + 0) = 1 \<and> texels tex' ! ((5 * 16 + 2) * 4 + 0) = 0 \<and>
      after ! (5 * 80 + 2 * 4 + 0) = 1 \<and> after ! (4 * 80 + 11 * 4 + 3) = 1 \<and>
      after ! (10 * 80 + 2 * 4 + 0) = before ! (10 * 80 + 2 * 4 + 0) \<and>
      after ! (11 * 80 + 11 * 4 + 3) = before ! (11 * 80 + 11 * 4 + 3) \<and>
      after ! (5 * 80 + 1 * 4 + 0) = before ! (5 * 80 + 1 * 4 + 0)"
    using tr2 r02 r12 tp [folded same] px2 by blast
  show ?thesis
    using top bottom by (simp add: blank_texture_simps)
qed

text \<open>
  The claim C5 as stated, a full read that shows the transferred values inside the
  sub-rectangle and the previous values outside it, fails for a bottom-up read. Four bytes
  are transferred to the pixel \<open>(0, 2)\<close> of a texture of 1 by 3, and the texture is read
  bottom-up before and after. In the read after the transfer the pixel \<open>(0, 2)\<close>, inside
  the sub-rectangle, holds what it held in the read before and not the transferred
  bytes; the pixel \<open>(0, 0)\<close>, outside the sub-rectangle, holds the transferred bytes.
\<close>

theorem partial_transfer_mirrored_bottom_left:
  "transferPixels all_caps three_row_texture 0 2 1 1 kRGBA_8888 [1, 2, 3, 4] 0 4 =
     (True, three_row_texture\<lparr>texels := [10, 11, 12, 13, 20, 21, 22, 23, 1, 2, 3, 4]\<rparr>) \<and>
   readPixels all_caps three_row_texture kBottomLeft_GrSurfaceOrigin 0 0 1 3 kRGBA_8888
     [0xCD, 0xCD, 0xCD, 0xCD, 0xCD, 0xCD, 0xCD, 0xCD, 0xCD, 0xCD, 0xCD, 0xCD] 4 =
     (True, [30, 31, 32, 33, 20, 21, 22, 23, 10, 11, 12, 13]) \<and>
   readPixels all_caps (three_row_texture\<lparr>texels := [10, 11, 12, 13, 20, 21, 22, 23, 1, 2, 3, 4]\<rparr>)
     kBottomLeft_GrSurfaceOrigin 0 0 1 3 kRGBA_8888
     [0xCD, 0xCD, 0xCD, 0xCD, 0xCD, 0xCD, 0xCD, 0xCD, 0xCD, 0xCD, 0xCD, 0xCD] 4 =
     (True, [1, 2, 3, 4, 20, 21, 22, 23, 10, 11, 12, 13]) \<and>
   read_span [1, 2, 3, 4, 20, 21, 22, 23, 10, 11, 12, 13 :: byte] (2 * 4) 4 = Some [10, 11, 12, 13] \<and>
   read_span [30, 31, 32, 33, 20, 21, 22, 23, 10, 11, 12, 13 :: byte] (2 * 4) 4 = Some [10, 11, 12, 13] \<and>
   [10, 11, 12, 13] \<noteq> [1, 2, 3, 4 :: byte] \<and>
   read_span [1, 2, 3, 4, 20, 21, 22, 23, 10, 11, 12, 13 :: byte] (0 * 4) 4 = Some [1, 2, 3, 4] \<and>
   read_span [30, 31, 32, 33, 20, 21, 22, 23, 10, 11, 12, 13 :: byte] (0 * 4) 4 = Some [30, 31, 32, 33] \<and>
   [1, 2, 3, 4] \<noteq> [30, 31, 32, 33 :: byte]"
proof (intro conjI)
  show "transferPixels all_caps three_row_texture 0 2 1 1 kRGBA_8888 [1, 2, 3, 4] 0 4 =
     (True, three_row_texture\<lparr>texels := [10, 11, 12, 13, 20, 21, 22, 23, 1, 2, 3, 4]\<rparr>)"
    by (simp add: transferPixels_def all_caps_def three_row_texture_def
        read_span_def write_span_def upt_rec)
  show "readPixels all_caps three_row_texture kBottomLeft_GrSurfaceOrigin 0 0 1 3 kRGBA_8888
     [0xCD, 0xCD, 0xCD, 0xCD, 0xCD, 0xCD, 0xCD, 0xCD, 0xCD, 0xCD, 0xCD, 0xCD] 4 =
     (True, [30, 31, 32, 33, 20, 21, 22, 23, 10, 11, 12, 13])"
    by (simp add: readPixels_def all_caps_def three_row_texture_def read_span_def write_span_def
        upt_rec physical_row_def)
  show "readPixels all_caps (three_row_texture\<lparr>texels := [10, 11, 12, 13, 20, 21, 22, 23, 1, 2, 3, 4]\<rparr>)
     kBottomLeft_GrSurfaceOrigin 0 0 1 3 kRGBA_8888
     [0xCD, 0xCD, 0xCD, 0xCD, 0xCD, 0xCD, 0xCD, 0xCD, 0xCD, 0xCD, 0xCD, 0xCD] 4 =
     (True, [1, 2, 3, 4, 20, 21, 22, 23, 10, 11, 12, 13])"
    by (simp add: readPixels_def all_caps_def three_row_texture_def read_span_def write_span_def
        upt_rec physical_row_def)
qed (simp_all add: read_span_def)

text \<open>
  Claim C3, as amended. A transfer of a full rectangle followed by a full read succeeds
  (with buffers that are long enough and an output stride of at least the row width),
  and pixel \<open>(i, j)\<close> of the result has the bytes that were uploaded for pixel \<open>(i, j)\<close>
  when the origin is top-left, and those uploaded for pixel \<open>(i, textureHeight - 1 - j)\<close>
  when it is bottom-left. The round trip is the identity for a top-left origin and the
  reversal of the rows for a bottom-left origin; the comparison of the test mirrors the
  rows of the destination for that reason.
\<close>

theorem round_trip_rows:
  assumes "transferSupported caps (texConfig tex)" "readSupported caps (texConfig tex)"
    "wf_texture tex"
    "texHeight tex = 0 \<or> off + (texHeight tex - 1) * rowBytes + texWidth tex * 4 \<le> length buffer"
    "texWidth tex * 4 \<le> outRowBytes"
    "texHeight tex = 0 \<or> (texHeight tex - 1) * outRowBytes + texWidth tex * 4 \<le> length outBuffer"
  shows "\<exists>tex' out'.
     transferPixels caps tex (int 0) (int 0) (int (texWidth tex)) (int (texHeight tex)) ct buffer off
       rowBytes = (True, tex') \<and>
     readPixels caps tex' origin (int 0) (int 0) (int (texWidth tex)) (int (texHeight tex)) ct
       outBuffer outRowBytes = (True, out') \<and>
     (\<forall>j<texHeight tex. \<forall>i<texWidth tex. \<forall>b<4.
        out' ! (j * outRowBytes + i * 4 + b) =
          buffer ! (off + (if origin = kBottomLeft_GrSurfaceOrigin then texHeight tex - 1 - j else j) *
                      rowBytes + i * 4 + b))"
proof -
  let ?W = "texWidth tex" and ?H = "texHeight tex"
  have full: "0 + ?W \<le> ?W" "0 + ?H \<le> ?H" by simp_all
  from transferPixels_succeeds [OF assms(1,3) full assms(4)] obtain tex' where
    tr: "transferPixels caps tex (int 0) (int 0) (int ?W) (int ?H) ct buffer off rowBytes = (True, tex')"
    and wf': "wf_texture tex'" by blast
  note eff = transferPixels_texels [OF tr]
  have "readSupported caps (texConfig tex')" "0 + ?W \<le> texWidth tex'" "0 + ?H \<le> texHeight tex'"
    using assms(2) eff(1-3) by simp_all
  from readPixels_succeeds [OF this(1) wf' this(2,3), of outRowBytes outBuffer] assms(6) obtain out'
    where rd: "readPixels caps tex' origin (int 0) (int 0) (int ?W) (int ?H) ct outBuffer outRowBytes =
      (True, out')" by blast
  have rd': "readPixels caps tex' origin (int 0) (int 0) (int (texWidth tex')) (int (texHeight tex'))
      ct outBuffer outRowBytes = (True, out')"
    using rd eff(1,2) by simp
  have row: "physical_row origin ?H j =
      (if origin = kBottomLeft_GrSurfaceOrigin then ?H - 1 - j else j)" for j
    by (cases origin) (simp_all add: physical_row_def)
  have px: "out' ! (j * outRowBytes + i * 4 + b) =
      buffer ! (off + (if origin = kBottomLeft_GrSurfaceOrigin then ?H - 1 - j else j) * rowBytes +
        i * 4 + b)" if "j < ?H" "i < ?W" "b < 4" for j i b
  proof -
    let ?p = "physical_row origin ?H j"
    have p: "?p < ?H" using that(1) by (rule physical_row_less)
    have "(?p * ?W + 0) * 4 + ?W * 4 \<le> ?W * ?H * 4"
      by (rule texel_span_inside) (use p in simp_all)
    then have inside: "(?p * ?W + i) * 4 + b < length (texels tex)"
      using that assms(3) by (simp add: wf_texture_def)
    have "out' ! (j * outRowBytes + i * 4 + b) = texels tex' ! ((?p * ?W + i) * 4 + b)"
      using full_read [OF rd', of j i b] that assms(5) eff(1,2) by simp
    also have "\<dots> = buffer ! (off + (?p - 0) * rowBytes + (i - 0) * 4 + b)"
      using eff(6) [OF p that(2,3) inside] p that(2) by simp
    finally show ?thesis by (simp add: row)
  qed
  show ?thesis using tr rd px by blast
qed

theorem round_trip_rows_witness:
  "transferSupported all_caps (texConfig (blank_texture 1 2)) \<and>
   readSupported all_caps (texConfig (blank_texture 1 2)) \<and> wf_texture (blank_texture 1 2) \<and>
   (\<exists>tex' out'.
      transferPixels all_caps (blank_texture 1 2) (int 0) (int 0) (int 1) (int 2) kRGBA_8888
        [0, 0, 255, 255, 0, 128, 255, 255] 0 4 = (True, tex') \<and>
      readPixels all_caps tex' kBottomLeft_GrSurfaceOrigin (int 0) (int 0) (int 1) (int 2)
        kRGBA_8888 [0xCD, 0xCD, 0xCD, 0xCD, 0xCD, 0xCD, 0xCD, 0xCD] 4 = (True, out') \<and>
      out' ! 1 = 128 \<and> out' ! 5 = 0) \<and>
   (\<exists>tex' out'.
      transferPixels all_caps (blank_texture 1 2) (int 0) (int 0) (int 1) (int 2) kRGBA_8888
        [0, 0, 255, 255, 0, 128, 255, 255] 0 4 = (True, tex') \<and>
      readPixels all_caps tex' kTopLeft_GrSurfaceOrigin (int 0) (int 0) (int 1) (int 2)
        kRGBA_8888 [0xCD, 0xCD, 0xCD, 0xCD, 0xCD, 0xCD, 0xCD, 0xCD] 4 = (True, out') \<and>
      out' ! 1 = 0 \<and> out' ! 5 = 128)"
proof -
  let ?buf = "[0, 0, 255, 255, 0, 128, 255, 255 :: byte]"
  let ?out = "[0xCD, 0xCD, 0xCD, 0xCD, 0xCD, 0xCD, 0xCD, 0xCD :: byte]"
  have sz: "texHeight (blank_texture 1 2) = 0 \<or>
      0 + (texHeight (blank_texture 1 2) - 1) * 4 + texWidth (blank_texture 1 2) * 4 \<le> length ?buf"
    "texWidth (blank_texture 1 2) * 4 \<le> 4"
    "texHeight (blank_texture 1 2) = 0 \<or>
      (texHeight (blank_texture 1 2) - 1) * 4 + texWidth (blank_texture 1 2) * 4 \<le> length ?out"
    by (simp_all add: blank_texture_simps)
  note inst = round_trip_rows [OF blank_texture_simps(1,2,3) sz, of kRGBA_8888, unfolded blank_texture_simps]
  from inst [of kBottomLeft_GrSurfaceOrigin] obtain t1 o1 where 1:
    "transferPixels all_caps (blank_texture 1 2) (int 0) (int 0) (int 1) (int 2) kRGBA_8888 ?buf 0 4 =
      (True, t1)"
    "readPixels all_caps t1 kBottomLeft_GrSurfaceOrigin (int 0) (int 0) (int 1) (int 2) kRGBA_8888
      ?out 4 = (True, o1)"
    "\<forall>j<2. \<forall>i<1. \<forall>b<4. o1 ! (j * 4 + i * 4 + b) =
      ?buf ! (0 + (if kBottomLeft_GrSurfaceOrigin = kBottomLeft_GrSurfaceOrigin then 2 - 1 - j else j) * 4 +
        i * 4 + b)"
    by blast
  from inst [of kTopLeft_GrSurfaceOrigin] obtain t2 o2 where 2:
    "transferPixels all_caps (blank_texture 1 2) (int 0) (int 0) (int 1) (int 2) kRGBA_8888 ?buf 0 4 =
      (True, t2)"
    "readPixels all_caps t2 kTopLeft_GrSurfaceOrigin (int 0) (int 0) (int 1) (int 2) kRGBA_8888
      ?out 4 = (True, o2)"
    "\<forall>j<2. \<forall>i<1. \<forall>b<4. o2 ! (j * 4 + i * 4 + b) =
      ?buf ! (0 + (if kTopLeft_GrSurfaceOrigin = kBottomLeft_GrSurfaceOrigin then 2 - 1 - j else j) * 4 +
        i * 4 + b)"
    by blast
  have a: "o1 ! 1 = 128" "o1 ! 5 = 0"
    using 1(3) [rule_format, of 0 0 1] 1(3) [rule_format, of 1 0 1] by simp_all
  have b: "o2 ! 1 = 0" "o2 ! 5 = 128"
    using 2(3) [rule_format, of 0 0 1] 2(3) [rule_format, of 1 0 1] by simp_all
  show ?thesis
    using 1(1,2) 2(1,2) a b by (simp add: blank_texture_simps)
qed

text \<open>
  The claim C3 as stated, an identity for every origin, fails for the bottom-left origin.
  The two-pixel gradient that \<^verbatim>\<open>fill_transfer_data\<close> builds for a texture of 1 by 2 is
  uploaded and read back bottom-up: both calls succeed, and the bytes read are those
  uploaded with the two rows exchanged. The comparison of the test accepts this result,
  and rejects a destination that equals the source.
\<close>

theorem round_trip_reverses_rows_bottom_left:
  "fill_transfer_data exact_scale rgba_shifts 0 0 1 2 1 [0, 0] = Some [0xFFFF0000, 0xFFFF8000] \<and>
   colors_to_bytes [0xFFFF0000, 0xFFFF8000] = [0, 0, 255, 255, 0, 128, 255, 255] \<and>
   transferPixels all_caps (blank_texture 1 2) 0 0 1 2 kRGBA_8888
     [0, 0, 255, 255, 0, 128, 255, 255] 0 4 = (True, two_row_texture) \<and>
   readPixels all_caps two_row_texture kBottomLeft_GrSurfaceOrigin 0 0 1 2 kRGBA_8888
     [0xCD, 0xCD, 0xCD, 0xCD, 0xCD, 0xCD, 0xCD, 0xCD] 4 =
     (True, [0, 128, 255, 255, 0, 0, 255, 255]) \<and>
   [0, 128, 255, 255, 0, 0, 255, 255] \<noteq> [0, 0, 255, 255, 0, 128, 255, 255 :: byte] \<and>
   bytes_to_colors [0, 128, 255, 255, 0, 0, 255, 255] = [0xFFFF8000, 0xFFFF0000] \<and>
   does_full_buffer_contain_correct_values [0xFFFF0000, 0xFFFF8000] [0xFFFF8000, 0xFFFF0000]
     1 2 1 2 kBottomLeft_GrSurfaceOrigin = Some True \<and>
   does_full_buffer_contain_correct_values [0xFFFF0000, 0xFFFF8000] [0xFFFF0000, 0xFFFF8000]
     1 2 1 2 kBottomLeft_GrSurfaceOrigin = Some False"
proof (intro conjI)
  show "fill_transfer_data exact_scale rgba_shifts 0 0 1 2 1 [0, 0] = Some [0xFFFF0000, 0xFFFF8000]"
    by (simp add: fill_transfer_data_def fill_rows.simps fill_row.simps store_def exact_scale_def
        rgba_shifts_def GrColorPackRGBA_def Let_def)
  show "colors_to_bytes [0xFFFF0000, 0xFFFF8000] = [0, 0, 255, 255, 0, 128, 255, 255]"
    by (simp add: colors_to_bytes_def GrColor_bytes_def)
  show "transferPixels all_caps (blank_texture 1 2) 0 0 1 2 kRGBA_8888
     [0, 0, 255, 255, 0, 128, 255, 255] 0 4 = (True, two_row_texture)"
    by (simp add: transferPixels_def all_caps_def blank_texture_def two_row_texture_def
        read_span_def write_span_def upt_rec)
  show "readPixels all_caps two_row_texture kBottomLeft_GrSurfaceOrigin 0 0 1 2 kRGBA_8888
     [0xCD, 0xCD, 0xCD, 0xCD, 0xCD, 0xCD, 0xCD, 0xCD] 4 =
     (True, [0, 128, 255, 255, 0, 0, 255, 255])"
    by (simp add: readPixels_def all_caps_def two_row_texture_def read_span_def write_span_def
        upt_rec physical_row_def)
  show "[0, 128, 255, 255, 0, 0, 255, 255] \<noteq> [0, 0, 255, 255, 0, 128, 255, 255 :: byte]"
    by simp
  show "bytes_to_colors [0, 128, 255, 255, 0, 0, 255, 255] = [0xFFFF8000, 0xFFFF0000]"
    by (simp add: bytes_to_colors_def bytes_GrColor_def upt_rec)
  show "does_full_buffer_contain_correct_values [0xFFFF0000, 0xFFFF8000] [0xFFFF8000, 0xFFFF0000]
     1 2 1 2 kBottomLeft_GrSurfaceOrigin = Some True"
    by (simp add: does_full_buffer_contain_correct_values_def compare_rows.simps
        compare_row.simps load_def)
  show "does_full_buffer_contain_correct_values [0xFFFF0000, 0xFFFF8000] [0xFFFF0000, 0xFFFF8000]
     1 2 1 2 kBottomLeft_GrSurfaceOrigin = Some False"
    by (simp add: does_full_buffer_contain_correct_values_def compare_rows.simps
        compare_row.simps load_def)
qed

section \<open>The test on the model of the protocol\<close>

text \<open>
  The body of \<^verbatim>\<open>basic_transfer_test\<close> is run against the model of \<^verbatim>\<open>transferPixels\<close> and
  \<^verbatim>\<open>readPixels\<close>. All four assertions of the test hold, for both origins and both colour
  types, whatever the source array and the texture held before and whatever levels the
  gradient has: the model does what the test of the repository expects of the two
  operations, the reversal of the rows for a bottom-left origin included.
\<close>

lemma length_GrColor_bytes: "length (GrColor_bytes c) = 4"
  by (simp add: GrColor_bytes_def)

lemma bytes_GrColor_inverse: "bytes_GrColor (GrColor_bytes c) = c"
proof (rule bit_eqI)
  fix n assume "possible_bit TYPE(32 word) n"
  then have n: "n < 32" by (simp add: possible_bit_word)
  consider "n < 8" | "8 \<le> n" "n < 16" | "16 \<le> n" "n < 24" | "24 \<le> n" "n < 32"
    using n by linarith
  then show "bit (bytes_GrColor (GrColor_bytes c)) n = bit c n"
    unfolding bytes_GrColor_def GrColor_bytes_def
    by cases (auto simp: bit_simps)
qed

lemma length_colors_to_bytes: "length (colors_to_bytes cs) = 4 * length cs"
  by (induction cs) (simp_all add: colors_to_bytes_def length_GrColor_bytes)

lemma nth_colors_to_bytes:
  "k < length cs \<Longrightarrow> b < 4 \<Longrightarrow> colors_to_bytes cs ! (k * 4 + b) = GrColor_bytes (cs ! k) ! b"
proof (induction cs arbitrary: k)
  case Nil
  then show ?case by simp
next
  case (Cons c cs)
  have unfold: "colors_to_bytes (c # cs) = GrColor_bytes c @ colors_to_bytes cs"
    by (simp add: colors_to_bytes_def)
  show ?case
  proof (cases k)
    case 0
    then show ?thesis using Cons.prems by (simp add: unfold nth_append length_GrColor_bytes)
  next
    case (Suc k')
    then have "k' < length cs" using Cons.prems by simp
    from Cons.IH [OF this Cons.prems(2)] show ?thesis
      using Suc by (simp add: unfold nth_append length_GrColor_bytes)
  qed
qed

lemma length_bytes_to_colors: "length (bytes_to_colors bs) = length bs div 4"
  by (simp add: bytes_to_colors_def)

lemma nth_bytes_to_colors:
  assumes "k * 4 + 4 \<le> length bs" and "\<forall>b<4. bs ! (k * 4 + b) = GrColor_bytes c ! b"
  shows "bytes_to_colors bs ! k = c"
proof -
  have k: "k < length bs div 4" using assms(1) by simp
  have nth: "take 4 (drop (4 * k) bs) ! b = GrColor_bytes c ! b" if "b < 4" for b
    using that assms by (simp add: mult.commute)
  have "bytes_to_colors bs ! k = bytes_GrColor (take 4 (drop (4 * k) bs))"
    using k by (simp add: bytes_to_colors_def)
  also have "\<dots> = bytes_GrColor (GrColor_bytes c)"
    unfolding bytes_GrColor_def using nth [of 0] nth [of 1] nth [of 2] nth [of 3] by simp
  finally show ?thesis by (simp add: bytes_GrColor_inverse)
qed

lemma load_int: "n < length xs \<Longrightarrow> load xs (int n) = Some (xs ! n)"
  by (simp add: load_def)

lemma read_then_compare:
  assumes caps: "readSupported caps (texConfig tex)" and wf: "wf_texture tex"
    and dims: "texWidth tex = 16" "texHeight tex = 16" and len: "length src = 320"
    and img: "\<forall>p<16. \<forall>i<16. \<forall>b<4.
        texels tex ! ((p * 16 + i) * 4 + b) = GrColor_bytes (src ! (p * 20 + i)) ! b"
  shows "\<exists>dst. readPixels caps tex origin 0 0 16 16 ct (replicate 1280 0xCD) 80 = (True, dst) \<and>
           does_full_buffer_contain_correct_values src (bytes_to_colors dst) 16 16 20 16 origin =
             Some True"
proof -
  have sz: "(0::nat) + 16 \<le> texWidth tex" "(0::nat) + 16 \<le> texHeight tex"
    "(16::nat) = 0 \<or> (16 - 1) * 80 + 16 * 4 \<le> length (replicate 1280 (0xCD :: byte))"
    using dims by simp_all
  from readPixels_succeeds [OF caps wf sz, of origin ct] obtain dst where
    rd: "readPixels caps tex origin (int 0) (int 0) (int 16) (int 16) ct (replicate 1280 0xCD) 80 =
      (True, dst)" by blast
  have rd': "readPixels caps tex origin (int 0) (int 0) (int (texWidth tex)) (int (texHeight tex)) ct
      (replicate 1280 0xCD) 80 = (True, dst)"
    using rd dims by simp
  have ldst: "length dst = 1280" using readPixels_out(1) [OF rd] by simp
  have byte: "dst ! ((m * 20 + i) * 4 + b) =
      GrColor_bytes (src ! (physical_row origin 16 m * 20 + i)) ! b"
    if "m < 16" "i < 16" "b < 4" for m i b
  proof -
    have p: "physical_row origin 16 m < 16" using that(1) by (rule physical_row_less)
    have "dst ! (m * 80 + i * 4 + b) = texels tex ! ((physical_row origin 16 m * 16 + i) * 4 + b)"
      using full_read [OF rd', of m i b] that dims by simp
    also have "\<dots> = GrColor_bytes (src ! (physical_row origin 16 m * 20 + i)) ! b"
      using img p that by simp
    finally show ?thesis by (simp add: algebra_simps)
  qed
  have color: "bytes_to_colors dst ! (m * 20 + i) = src ! (physical_row origin 16 m * 20 + i)"
    if "m < 16" "i < 16" for m i
  proof (rule nth_bytes_to_colors)
    show "(m * 20 + i) * 4 + 4 \<le> length dst" using that ldst by simp
    show "\<forall>b<4. dst ! ((m * 20 + i) * 4 + b) =
        GrColor_bytes (src ! (physical_row origin 16 m * 20 + i)) ! b"
      using byte [OF that] by blast
  qed
  have lcol: "length (bytes_to_colors dst) = 320"
    using ldst by (simp add: length_bytes_to_colors)
  let ?inc = "if kBottomLeft_GrSurfaceOrigin = origin then - 20 else (20::int)"
  let ?dp = "if kBottomLeft_GrSurfaceOrigin = origin then 0 + 20 * (16 - 1) else (0::int)"
  have "compare_rows src (bytes_to_colors dst) 16 16 20 ?inc 0 ?dp 0 = Some True"
    unfolding compare_rows_True_iff
  proof (intro allI impI)
    fix r k :: int
    assume rk: "0 \<le> r \<and> r < 16 \<and> 0 \<le> k \<and> k < 16"
    define j i where "j = nat r" and "i = nat k"
    have ji: "j < 16" "i < 16" "r = int j" "k = int i" using rk unfolding j_def i_def by auto
    have "0 + (r - 0) * 20 + k = int (j * 20 + i)" using ji by simp
    moreover have "j * 20 + i < length src" using ji len by simp
    ultimately have s: "load src (0 + (r - 0) * 20 + k) = Some (src ! (j * 20 + i))"
      using load_int [of "j * 20 + i" src] by simp
    have d: "load (bytes_to_colors dst) (?dp + (r - 0) * ?inc + k) = Some (src ! (j * 20 + i))"
    proof (cases origin)
      case kTopLeft_GrSurfaceOrigin
      have "bytes_to_colors dst ! (j * 20 + i) = src ! (j * 20 + i)"
        using color [OF ji(1,2)] kTopLeft_GrSurfaceOrigin by (simp add: physical_row_def)
      moreover have idx: "?dp + (r - 0) * ?inc + k = int (j * 20 + i)"
        using ji kTopLeft_GrSurfaceOrigin by simp
      moreover have "j * 20 + i < length (bytes_to_colors dst)" using ji lcol by simp
      ultimately show ?thesis
        unfolding idx using load_int [of "j * 20 + i" "bytes_to_colors dst"] by simp
    next
      case kBottomLeft_GrSurfaceOrigin
      have m: "15 - j < 16" by simp
      have "physical_row origin 16 (15 - j) = j"
        using kBottomLeft_GrSurfaceOrigin ji(1) by (simp add: physical_row_def)
      then have c: "bytes_to_colors dst ! ((15 - j) * 20 + i) = src ! (j * 20 + i)"
        using color [OF m ji(2)] by simp
      have idx: "?dp + (r - 0) * ?inc + k = int ((15 - j) * 20 + i)"
        using ji kBottomLeft_GrSurfaceOrigin by (simp add: algebra_simps of_nat_diff)
      have "(15 - j) * 20 + i < length (bytes_to_colors dst)" using ji lcol by simp
      from load_int [OF this] show ?thesis
        unfolding idx using c by simp
    qed
    show "\<exists>a. load src (0 + (r - 0) * 20 + k) = Some a \<and>
        load (bytes_to_colors dst) (?dp + (r - 0) * ?inc + k) = Some a"
      using s d by simp
  qed
  then have "does_full_buffer_contain_correct_values src (bytes_to_colors dst) 16 16 20 16 origin =
      Some True"
    by (simp add: does_full_buffer_contain_correct_values_def)
  then show ?thesis using rd by auto
qed

lemma row_column_unique:
  fixes p i :: nat and r k :: int
  assumes "int (p * 20 + i) = k + r * 20" "i < 20" "0 \<le> k" "k < 20"
  shows "r = int p \<and> k = int i"
  using assms by presburger

lemma full_transfer_image:
  assumes caps: "transferSupported caps (texConfig tex)" and wf: "wf_texture tex"
    and dims: "texWidth tex = 16" "texHeight tex = 16" and len: "length src = 320"
  shows "\<exists>tex1. transferPixels caps tex 0 0 16 16 ct (take 1280 (colors_to_bytes src)) 0 80 =
             (True, tex1) \<and>
           wf_texture tex1 \<and> texWidth tex1 = 16 \<and> texHeight tex1 = 16 \<and>
           texConfig tex1 = texConfig tex \<and>
           (\<forall>p<16. \<forall>i<16. \<forall>b<4.
              texels tex1 ! ((p * 16 + i) * 4 + b) = GrColor_bytes (src ! (p * 20 + i)) ! b)"
proof -
  let ?buf = "take 1280 (colors_to_bytes src)"
  have buf: "?buf = colors_to_bytes src" using len by (simp add: length_colors_to_bytes)
  have sz: "(0::nat) + 16 \<le> texWidth tex" "(0::nat) + 16 \<le> texHeight tex"
    "(16::nat) = 0 \<or> 0 + (16 - 1) * 80 + 16 * 4 \<le> length ?buf"
    using dims len by (simp_all add: length_colors_to_bytes)
  from transferPixels_succeeds [OF caps wf sz, of ct] obtain tex1 where
    tr: "transferPixels caps tex (int 0) (int 0) (int 16) (int 16) ct ?buf 0 80 = (True, tex1)"
    and wf1: "wf_texture tex1" by blast
  note eff = transferPixels_texels [OF tr]
  have img: "texels tex1 ! ((p * 16 + i) * 4 + b) = GrColor_bytes (src ! (p * 20 + i)) ! b"
    if "p < 16" "i < 16" "b < 4" for p i b
  proof -
    have inside: "(p * texWidth tex + i) * 4 + b < length (texels tex)"
      using that wf dims by (simp add: wf_texture_def)
    have "texels tex1 ! ((p * 16 + i) * 4 + b) =
        colors_to_bytes src ! (0 + (p - 0) * 80 + (i - 0) * 4 + b)"
      using eff(6) [unfolded buf, of p i b] inside that dims by simp
    also have "\<dots> = colors_to_bytes src ! ((p * 20 + i) * 4 + b)"
      by (simp add: algebra_simps)
    also have "\<dots> = GrColor_bytes (src ! (p * 20 + i)) ! b"
      using that len by (intro nth_colors_to_bytes) simp_all
    finally show ?thesis .
  qed
  show ?thesis
    using tr wf1 eff(1-3) dims img by auto
qed

lemma partial_transfer_image:
  assumes caps: "transferSupported caps (texConfig tex1)" and wf: "wf_texture tex1"
    and dims: "texWidth tex1 = 16" "texHeight tex1 = 16" and len: "length src1 = 320"
    and img: "\<forall>p<16. \<forall>i<16. \<forall>b<4.
        texels tex1 ! ((p * 16 + i) * 4 + b) = GrColor_bytes (src1 ! (p * 20 + i)) ! b"
    and fill: "fill_transfer_data sc sh 2 10 10 2 20 src1 = Some src2"
  shows "\<exists>tex2. transferPixels caps tex1 2 10 10 2 ct (take 1280 (colors_to_bytes src2)) 808 80 =
             (True, tex2) \<and>
           wf_texture tex2 \<and> texWidth tex2 = 16 \<and> texHeight tex2 = 16 \<and>
           texConfig tex2 = texConfig tex1 \<and> length src2 = 320 \<and>
           (\<forall>p<16. \<forall>i<16. \<forall>b<4.
              texels tex2 ! ((p * 16 + i) * 4 + b) = GrColor_bytes (src2 ! (p * 20 + i)) ! b)"
proof -
  note f = fill_rows_Some [OF fill [unfolded fill_transfer_data_def] order_refl]
  have len2: "length src2 = 320" using f len by simp
  let ?buf = "take 1280 (colors_to_bytes src2)"
  have buf: "?buf = colors_to_bytes src2" using len2 by (simp add: length_colors_to_bytes)
  have sz: "(2::nat) + 10 \<le> texWidth tex1" "(10::nat) + 2 \<le> texHeight tex1"
    "(2::nat) = 0 \<or> 808 + (2 - 1) * 80 + 10 * 4 \<le> length ?buf"
    using dims len2 by (simp_all add: length_colors_to_bytes)
  from transferPixels_succeeds [OF caps wf sz, of ct] obtain tex2 where
    tr: "transferPixels caps tex1 (int 2) (int 10) (int 10) (int 2) ct ?buf 808 80 = (True, tex2)"
    and wf2: "wf_texture tex2" by blast
  note eff = transferPixels_texels [OF tr]
  have same: "src2 ! (p * 20 + i) = src1 ! (p * 20 + i)"
    if "p < 16" "i < 16" "\<not> (10 \<le> p \<and> p < 10 + 2 \<and> 2 \<le> i \<and> i < 2 + 10)" for p i
  proof -
    have "\<not> (\<exists>r k. (10::int) \<le> r \<and> r < 10 + 2 \<and> (2::int) \<le> k \<and> k < 2 + 10 \<and>
        int (p * 20 + i) = k + r * 20)"
    proof
      assume "\<exists>r k. (10::int) \<le> r \<and> r < 10 + 2 \<and> (2::int) \<le> k \<and> k < 2 + 10 \<and>
        int (p * 20 + i) = k + r * 20"
      then obtain r k where rk: "(10::int) \<le> r" "r < 10 + 2" "(2::int) \<le> k" "k < 2 + 10"
        "int (p * 20 + i) = k + r * 20" by blast
      have "r = int p \<and> k = int i"
        using row_column_unique [OF rk(5)] that(2) rk(3,4) by simp
      then show False using rk that(3) by simp
    qed
    moreover have "p * 20 + i < length src1" using that len by simp
    ultimately show ?thesis using f by blast
  qed
  have img2: "texels tex2 ! ((p * 16 + i) * 4 + b) = GrColor_bytes (src2 ! (p * 20 + i)) ! b"
    if "p < 16" "i < 16" "b < 4" for p i b
  proof (cases "10 \<le> p \<and> p < 10 + 2 \<and> 2 \<le> i \<and> i < 2 + 10")
    case True
    have inside: "(p * texWidth tex1 + i) * 4 + b < length (texels tex1)"
      using that wf dims by (simp add: wf_texture_def)
    have "texels tex2 ! ((p * 16 + i) * 4 + b) =
        (if 10 \<le> p \<and> p < 10 + 2 \<and> 2 \<le> i \<and> i < 2 + 10
         then colors_to_bytes src2 ! (808 + (p - 10) * 80 + (i - 2) * 4 + b)
         else texels tex1 ! ((p * 16 + i) * 4 + b))"
      using eff(6) [unfolded dims buf, OF that] inside [unfolded dims] by blast
    then have "texels tex2 ! ((p * 16 + i) * 4 + b) =
        colors_to_bytes src2 ! (808 + (p - 10) * 80 + (i - 2) * 4 + b)"
      unfolding if_P [OF True] .
    also have "808 + (p - 10) * 80 + (i - 2) * 4 + b = (p * 20 + i) * 4 + b"
    proof -
      obtain p' i' where "p = 10 + p'" "i = 2 + i'"
        using True by (metis le_Suc_ex)
      then show ?thesis by simp
    qed
    also have "colors_to_bytes src2 ! ((p * 20 + i) * 4 + b) = GrColor_bytes (src2 ! (p * 20 + i)) ! b"
      using that len2 by (intro nth_colors_to_bytes) simp_all
    finally show ?thesis .
  next
    case False
    have inside: "(p * texWidth tex1 + i) * 4 + b < length (texels tex1)"
      using that wf dims by (simp add: wf_texture_def)
    have "texels tex2 ! ((p * 16 + i) * 4 + b) =
        (if 10 \<le> p \<and> p < 10 + 2 \<and> 2 \<le> i \<and> i < 2 + 10
         then ?buf ! (808 + (p - 10) * 80 + (i - 2) * 4 + b)
         else texels tex1 ! ((p * 16 + i) * 4 + b))"
      using eff(6) [unfolded dims, OF that] inside [unfolded dims] by blast
    then have "texels tex2 ! ((p * 16 + i) * 4 + b) = texels tex1 ! ((p * 16 + i) * 4 + b)"
      unfolding if_not_P [OF False] .
    also have "\<dots> = GrColor_bytes (src1 ! (p * 20 + i)) ! b"
      using img that by simp
    finally show ?thesis using same [OF that(1,2) False] by simp
  qed
  show ?thesis
    using tr wf2 eff(1-3) dims len2 img2 by auto
qed

lemma basic_transfer_test_passes:
  assumes caps: "transferSupported caps (texConfig tex)" "readSupported caps (texConfig tex)"
    and wf: "wf_texture tex" and dims: "texWidth tex = 16" "texHeight tex = 16"
    and len: "length srcBuffer = 320"
  shows "basic_transfer_test sc sh caps colorType origin srcBuffer tex =
           Some [True, True, True, True]"
proof -
  have "\<forall>r k. (0::int) \<le> r \<and> r < 0 + 16 \<and> (0::int) \<le> k \<and> k < 0 + 16 \<longrightarrow>
      0 \<le> k + r * 20 \<and> k + r * 20 < int (length srcBuffer)"
    using len by auto
  from fill_rows_total [OF this order_refl] obtain src1 where
    fill1: "fill_transfer_data sc sh 0 0 16 16 20 srcBuffer = Some src1"
    unfolding fill_transfer_data_def by blast
  have len1: "length src1 = 320"
    using fill_rows_Some [OF fill1 [unfolded fill_transfer_data_def] order_refl] len by simp
  from full_transfer_image [OF caps(1) wf dims len1, of colorType] obtain tex1 where
    tr1: "transferPixels caps tex 0 0 16 16 colorType (take 1280 (colors_to_bytes src1)) 0 80 =
      (True, tex1)"
    and wf1: "wf_texture tex1" and dims1: "texWidth tex1 = 16" "texHeight tex1 = 16"
    and cfg1: "texConfig tex1 = texConfig tex"
    and img1: "\<forall>p<16. \<forall>i<16. \<forall>b<4.
        texels tex1 ! ((p * 16 + i) * 4 + b) = GrColor_bytes (src1 ! (p * 20 + i)) ! b"
    by blast
  have caps1: "transferSupported caps (texConfig tex1)" "readSupported caps (texConfig tex1)"
    using caps cfg1 by simp_all
  from read_then_compare [OF caps1(2) wf1 dims1 len1 img1, of origin colorType] obtain dst1 where
    rd1: "readPixels caps tex1 origin 0 0 16 16 colorType (replicate 1280 0xCD) 80 = (True, dst1)"
    and ck1: "does_full_buffer_contain_correct_values src1 (bytes_to_colors dst1) 16 16 20 16 origin =
      Some True"
    by blast
  have "\<forall>r k. (10::int) \<le> r \<and> r < 10 + 2 \<and> (2::int) \<le> k \<and> k < 2 + 10 \<longrightarrow>
      0 \<le> k + r * 20 \<and> k + r * 20 < int (length src1)"
    using len1 by auto
  from fill_rows_total [OF this order_refl] obtain src2 where
    fill2: "fill_transfer_data sc sh 2 10 10 2 20 src1 = Some src2"
    unfolding fill_transfer_data_def by blast
  from partial_transfer_image [OF caps1(1) wf1 dims1 len1 img1 fill2, of colorType] obtain tex2 where
    tr2: "transferPixels caps tex1 2 10 10 2 colorType (take 1280 (colors_to_bytes src2)) 808 80 =
      (True, tex2)"
    and wf2: "wf_texture tex2" and dims2: "texWidth tex2 = 16" "texHeight tex2 = 16"
    and cfg2: "texConfig tex2 = texConfig tex1" and len2: "length src2 = 320"
    and img2: "\<forall>p<16. \<forall>i<16. \<forall>b<4.
        texels tex2 ! ((p * 16 + i) * 4 + b) = GrColor_bytes (src2 ! (p * 20 + i)) ! b"
    by blast
  have caps2: "readSupported caps (texConfig tex2)" using caps1 cfg2 by simp
  from read_then_compare [OF caps2 wf2 dims2 len2 img2, of origin colorType] obtain dst2 where
    rd2: "readPixels caps tex2 origin 0 0 16 16 colorType (replicate 1280 0xCD) 80 = (True, dst2)"
    and ck2: "does_full_buffer_contain_correct_values src2 (bytes_to_colors dst2) 16 16 20 16 origin =
      Some True"
    by blast
  show ?thesis
    by (simp add: basic_transfer_test_def fill1 tr1 rd1 ck1 fill2 tr2 rd2 ck2)
qed


end
